theory Spec2Isabelle
  imports Main "HOL-Library.Multiset"
begin

section \<open>Errors\<close>

text \<open>
  The TypeScript helper (\<^verbatim>\<open>src/azureDevOps.ts\<close>, class \<^verbatim>\<open>AzureDevOpsHelper\<close>) signals every
  failure by \<^verbatim>\<open>throw new Error(message)\<close>. Each thrown message is one constructor here,
  named after the error taxonomy of the specification:
  \<^item> \<open>InvalidLocator\<close>: \<^verbatim>\<open>'Invalid Azure DevOps PR URL format'\<close> (parsePrUrl);
  \<^item> \<open>MissingCredential\<close>: \<^verbatim>\<open>'Azure DevOps PAT is not set in environment variables.'\<close>
    (getDefaultHeaders);
  \<^item> \<open>AuthenticationFailed\<close>: the promise of the token provider is rejected;
  \<^item> \<open>RemoteRequestFailed context status statusText\<close>:
    \<^verbatim>\<open>`${errorMessage}: HTTP ${response.status}: ${response.statusText}`\<close> (sendRequest);
  \<^item> \<open>NetworkFailure\<close>: the promise of \<^verbatim>\<open>fetch\<close> is rejected;
  \<^item> \<open>MalformedResponse\<close>: \<^verbatim>\<open>response.json()\<close> is rejected;
  \<^item> \<open>PullRequestNotActive\<close>: \<^verbatim>\<open>"The PR is not active."\<close>;
  \<^item> \<open>PullRequestHasConflicts\<close>: \<^verbatim>\<open>"The PR has merge conflict."\<close>;
  \<^item> \<open>BranchResolutionFailed\<close>:
    \<^verbatim>\<open>"Could not determine source or target branch from PR details."\<close>;
  \<^item> \<open>NoChangesFound\<close>: \<^verbatim>\<open>"No changed files found in this PR."\<close>;
  \<^item> \<open>NoEligibleFiles\<close>: \<^verbatim>\<open>"No supported code file found in this PR."\<close>.
\<close>

datatype error =
    InvalidLocator
  | MissingCredential
  | AuthenticationFailed
  | RemoteRequestFailed string nat string
  | NetworkFailure
  | MalformedResponse
  | PullRequestNotActive
  | PullRequestHasConflicts
  | BranchResolutionFailed
  | NoChangesFound
  | NoEligibleFiles

section \<open>Characters, numbers and their text\<close>

text \<open>
  Strings are lists of 8-bit characters: a JavaScript string whose code units are all
  below 256. Of the four line terminators that the regular-expression dot refuses
  (LF, CR, U+2028, U+2029) only LF and CR exist in that range.
\<close>

definition is_digit :: "char \<Rightarrow> bool" where
  "is_digit c = (48 \<le> (of_char c :: nat) \<and> (of_char c :: nat) \<le> 57)"

definition is_line_terminator :: "char \<Rightarrow> bool" where
  "is_line_terminator c = ((of_char c :: nat) = 10 \<or> (of_char c :: nat) = 13)"

text \<open>
  Canonicalisation of a character under the \<^verbatim>\<open>i\<close> flag (no \<^verbatim>\<open>u\<close> flag): the upper-case
  form. Every literal character of the two patterns is ASCII, and the canonical form of
  a non-ASCII character is never an ASCII character, so only the ASCII letters are
  folded here.
\<close>

definition canonicalize :: "char \<Rightarrow> char" where
  "canonicalize c =
     (if 97 \<le> (of_char c :: nat) \<and> (of_char c :: nat) \<le> 122
      then char_of ((of_char c :: nat) - 32) else c)"

text \<open>
  A JavaScript number that holds a parsed integer: \<open>NaN\<close> or a natural number. A
  double represents every integer up to \<open>2 ^ 53\<close> exactly, and \<^verbatim>\<open>parseInt\<close> rounds above
  it. The model keeps the mathematical value, which is the value of the program for
  every id below \<open>2 ^ 53\<close>; what is stated about the value of an id is stated for that
  range.
\<close>

datatype number = NaN | Num nat

definition digit_value :: "char \<Rightarrow> nat" where
  "digit_value c = (of_char c :: nat) - 48"

definition decimal_value :: "string \<Rightarrow> nat" where
  "decimal_value ds = foldl (\<lambda>a c. 10 * a + digit_value c) 0 ds"

text \<open>
  \<^verbatim>\<open>parseInt(text, 10)\<close> on a text without leading white space or sign (the only texts
  that reach it are matches of \<^verbatim>\<open>\d+\<close>): the value of the leading digits, \<open>NaN\<close> when
  there is none.
\<close>

definition parseInt10 :: "string \<Rightarrow> number" where
  "parseInt10 s =
     (let ds = takeWhile is_digit s in if ds = [] then NaN else Num (decimal_value ds))"

definition digit_char :: "nat \<Rightarrow> char" where
  "digit_char d = char_of (48 + d)"

fun string_of_nat :: "nat \<Rightarrow> string" where
  "string_of_nat n =
     (if n < 10 then [digit_char n] else string_of_nat (n div 10) @ [digit_char (n mod 10)])"

declare string_of_nat.simps [simp del]

definition string_of_int :: "int \<Rightarrow> string" where
  "string_of_int i = (if i < 0 then CHR ''-'' # string_of_nat (nat (- i)) else string_of_nat (nat i))"

text \<open>
  The text of a number inside a template literal: its decimal digits (the exponent form
  of a number from \<open>10 ^ 21\<close> on is beyond the range above).
\<close>

fun string_of_number :: "number \<Rightarrow> string" where
  "string_of_number NaN = ''NaN''"
| "string_of_number (Num n) = string_of_nat n"

section \<open>PR Locator\<close>

text \<open>
  The two patterns of \<^verbatim>\<open>parsePrUrl\<close> are sequences of three kinds of node: a literal text
  compared under the \<^verbatim>\<open>i\<close> flag, the group \<^verbatim>\<open>(.+?)\<close> and the group \<^verbatim>\<open>(\d+)\<close>.
  \<^verbatim>\<open>prUrl.match(pattern)\<close> with a pattern without the \<^verbatim>\<open>g\<close> flag is a search: the
  backtracking matcher is tried at every start index from the left, and the first
  success gives the captured groups.
\<close>

datatype node = Lit string | LazyAny | Digits

definition devAzureRegex :: "node list" where
  "devAzureRegex =
     [Lit ''https://dev.azure.com/'', LazyAny, Lit ''/'', LazyAny, Lit ''/_git/'', LazyAny,
      Lit ''/pullrequest/'', Digits]"

definition visualStudioRegex :: "node list" where
  "visualStudioRegex =
     [Lit ''https://'', LazyAny, Lit ''.visualstudio.com/'', LazyAny, Lit ''/_git/'', LazyAny,
      Lit ''/pullrequest/'', Digits]"

text \<open>\<open>lit_prefix l s\<close>: the literal \<open>l\<close> matches at the start of \<open>s\<close>, ignoring case.\<close>

fun lit_prefix :: "string \<Rightarrow> string \<Rightarrow> bool" where
  "lit_prefix [] s = True"
| "lit_prefix (a # l) [] = False"
| "lit_prefix (a # l) (c # s) = (canonicalize a = canonicalize c \<and> lit_prefix l s)"

text \<open>
  \<^verbatim>\<open>(.+?)\<close>: the group has consumed \<open>acc\<close>; the rest of the pattern (the continuation
  \<open>k\<close>) is tried first, and only when it fails does the group take one more character.
\<close>

fun lazy_ext :: "(string \<Rightarrow> string list option) \<Rightarrow> string \<Rightarrow> string \<Rightarrow> string list option" where
  "lazy_ext k acc [] = (case k [] of Some caps \<Rightarrow> Some (acc # caps) | None \<Rightarrow> None)"
| "lazy_ext k acc (c # s) =
     (case k (c # s) of
        Some caps \<Rightarrow> Some (acc # caps)
      | None \<Rightarrow> if is_line_terminator c then None else lazy_ext k (acc @ [c]) s)"

fun lazy_plus :: "(string \<Rightarrow> string list option) \<Rightarrow> string \<Rightarrow> string list option" where
  "lazy_plus k [] = None"
| "lazy_plus k (c # s) = (if is_line_terminator c then None else lazy_ext k [c] s)"

text \<open>
  \<^verbatim>\<open>(\d+)\<close>: the group takes one more digit whenever it can, and the rest of the pattern
  is tried at the current position only when the longer attempts have failed.
\<close>

fun greedy_ext :: "(string \<Rightarrow> string list option) \<Rightarrow> string \<Rightarrow> string \<Rightarrow> string list option" where
  "greedy_ext k acc [] = (case k [] of Some caps \<Rightarrow> Some (acc # caps) | None \<Rightarrow> None)"
| "greedy_ext k acc (c # s) =
     (case (if is_digit c then greedy_ext k (acc @ [c]) s else None) of
        Some r \<Rightarrow> Some r
      | None \<Rightarrow> (case k (c # s) of Some caps \<Rightarrow> Some (acc # caps) | None \<Rightarrow> None))"

fun greedy_plus :: "(string \<Rightarrow> string list option) \<Rightarrow> string \<Rightarrow> string list option" where
  "greedy_plus k [] = None"
| "greedy_plus k (c # s) = (if is_digit c then greedy_ext k [c] s else None)"

primrec match_here :: "node list \<Rightarrow> string \<Rightarrow> string list option" where
  "match_here [] s = Some []"
| "match_here (n # ns) s =
     (case n of
        Lit l \<Rightarrow> if lit_prefix l s then match_here ns (drop (length l) s) else None
      | LazyAny \<Rightarrow> lazy_plus (match_here ns) s
      | Digits \<Rightarrow> greedy_plus (match_here ns) s)"

fun regex_match :: "node list \<Rightarrow> string \<Rightarrow> string list option" where
  "regex_match p [] = match_here p []"
| "regex_match p (c # s) =
     (case match_here p (c # s) of Some caps \<Rightarrow> Some caps | None \<Rightarrow> regex_match p s)"

record PrInfo =
  organization :: string
  project :: string
  repository :: string
  pullRequestId :: number

text \<open>
  \<^verbatim>\<open>parsePrUrlInternal\<close>. Both patterns have four groups, and every group takes part in
  every match, so \<^verbatim>\<open>match[1]\<close> to \<^verbatim>\<open>match[4]\<close> are the four captured texts.
\<close>

definition parsePrUrlInternal :: "string \<Rightarrow> node list \<Rightarrow> PrInfo option" where
  "parsePrUrlInternal prUrl pattern =
     (case regex_match pattern prUrl of
        None \<Rightarrow> None
      | Some m \<Rightarrow>
          (case m of
             [m1, m2, m3, m4] \<Rightarrow>
               Some \<lparr>organization = m1, project = m2, repository = m3,
                     pullRequestId = parseInt10 m4\<rparr>
           | _ \<Rightarrow> None))"

definition parsePrUrl :: "string \<Rightarrow> error + PrInfo" where
  "parsePrUrl prUrl =
     (case parsePrUrlInternal prUrl devAzureRegex of
        Some prInfo \<Rightarrow> Inr prInfo
      | None \<Rightarrow>
          (case parsePrUrlInternal prUrl visualStudioRegex of
             Some prInfo \<Rightarrow> Inr prInfo
           | None \<Rightarrow> Inl InvalidLocator))"

section \<open>Data model (models.ts)\<close>

text \<open>
  A field that the code tests against \<^verbatim>\<open>undefined\<close>, tests for truthiness or reads with
  \<^verbatim>\<open>?.\<close> is an option (\<open>None\<close> is \<^verbatim>\<open>undefined\<close>); the other fields have the type of
  the interface. Field names that occur in two interfaces carry a prefix in the second.
\<close>

record PullRequest =
  pr_pullRequestId :: number
  status :: "string option"
  mergeStatus :: "string option"
  sourceRefName :: "string option"
  targetRefName :: "string option"

record GitItem =
  objectId :: "string option"
  originalObjectId :: "string option"
  gitObjectType :: string
  commitId :: string
  path :: "string option"
  isFolder :: "bool option"
  url :: "string option"

record GitChange =
  item :: GitItem
  changeType :: string

record CommitDiffs =
  changes :: "GitChange list option"

record FilePatch =
  filePath :: "string option"
  sourceContent :: "string option"
  patch :: string

record PrComment =
  content :: string

record FilePosition =
  line :: int
  offset :: int

record ThreadContext =
  tc_filePath :: string
  rightFileStart :: "FilePosition option"
  rightFileEnd :: "FilePosition option"

record PrThread =
  comments :: "PrComment list"
  threadContext :: ThreadContext

record PrCommentOptions =
  opt_prUrl :: string
  comment :: string
  opt_filePath :: string
  rightFileStartLine :: int
  rightFileStartOffset :: int
  rightFileEndLine :: int
  rightFileEndOffset :: int

record AuthOptions =
  auth_type :: string
  token :: string

section \<open>The runtime: HTTP, the token provider, the diff package\<close>

text \<open>
  A JSON body is kept in parsed form, at the two shapes that the helper casts it to
  (\<open>PullRequestJson None\<close> is the body \<^verbatim>\<open>null\<close>); the body of a POST is the thread
  object that \<^verbatim>\<open>JSON.stringify\<close> serialises.
\<close>

datatype json = PullRequestJson "PullRequest option" | CommitDiffsJson CommitDiffs

record RequestInit =
  http_method :: "string option"
  headers :: "(string \<times> string) list"
  body :: "PrThread option"

record Response =
  resp_status :: nat
  statusText :: string
  resp_text :: string
  resp_json :: "json option"

text \<open>\<^verbatim>\<open>response.ok\<close>: the status is in the range 200 to 299.\<close>

definition ok :: "Response \<Rightarrow> bool" where
  "ok r = (200 \<le> resp_status r \<and> resp_status r \<le> 299)"

text \<open>
  What the helper does to the outside world, in the order in which it does it: a call of
  the token provider, or a call of \<^verbatim>\<open>fetch\<close> with its URL and options.
\<close>

datatype effect = TokenRequested | Fetched string RequestInit

text \<open>
  An asynchronous computation takes the effects so far and returns its outcome (\<open>Inl\<close>:
  the promise is rejected) with the effects extended. The answers of the outside world
  may depend on everything that happened before.
\<close>

type_synonym 'a io = "effect list \<Rightarrow> (error + 'a) \<times> effect list"

definition return :: "'a \<Rightarrow> 'a io" where
  "return a = (\<lambda>log. (Inr a, log))"

definition throw :: "error \<Rightarrow> 'a io" where
  "throw e = (\<lambda>log. (Inl e, log))"

definition bind :: "'a io \<Rightarrow> ('a \<Rightarrow> 'b io) \<Rightarrow> 'b io" where
  "bind m f = (\<lambda>log. case m log of (Inl e, log') \<Rightarrow> (Inl e, log') | (Inr a, log') \<Rightarrow> f a log')"

text \<open>
  The global \<^verbatim>\<open>fetch\<close> and the function \<^verbatim>\<open>createPatch\<close> of the package \<^verbatim>\<open>diff\<close> are not
  code of the helper: they are parameters. \<open>finish\<close> gives each task of a
  \<^verbatim>\<open>Promise.all\<close> (by its index) the time at which it completes.
\<close>

record runtime =
  fetch :: "effect list \<Rightarrow> string \<Rightarrow> RequestInit \<Rightarrow> error + Response"
  createPatch :: "string option \<Rightarrow> string \<Rightarrow> string \<Rightarrow> string"
  finish :: "nat \<Rightarrow> nat"

record AzureDevOpsHelper =
  prUrl :: string
  tokenProvider :: "effect list \<Rightarrow> error + AuthOptions"

definition call_tokenProvider :: "AzureDevOpsHelper \<Rightarrow> AuthOptions io" where
  "call_tokenProvider this = (\<lambda>log. (tokenProvider this log, log @ [TokenRequested]))"

definition call_fetch :: "runtime \<Rightarrow> string \<Rightarrow> RequestInit \<Rightarrow> Response io" where
  "call_fetch rt u options = (\<lambda>log. (fetch rt log u options, log @ [Fetched u options]))"

text \<open>
  \<^verbatim>\<open>Promise.all\<close>: the tasks complete one after the other in the order of their
  completion times (tasks with the same time in the order of their indices); each
  outcome is stored at the index of its task. The promise is rejected with the first
  rejection in completion order, and fulfilled with the values in index order when
  every task is fulfilled.
\<close>

fun run_tasks :: "(nat \<times> 'a io) list \<Rightarrow> effect list \<Rightarrow> (nat \<times> (error + 'a)) list \<times> effect list" where
  "run_tasks [] log = ([], log)"
| "run_tasks ((i, t) # ts) log =
     (case t log of (r, log') \<Rightarrow>
        (case run_tasks ts log' of (rs, log'') \<Rightarrow> ((i, r) # rs, log'')))"

fun first_rejection :: "(error + 'a) list \<Rightarrow> error option" where
  "first_rejection [] = None"
| "first_rejection (Inl e # rs) = Some e"
| "first_rejection (Inr v # rs) = first_rejection rs"

fun fulfilled :: "(error + 'a) list \<Rightarrow> 'a list" where
  "fulfilled [] = []"
| "fulfilled (Inl e # rs) = fulfilled rs"
| "fulfilled (Inr v # rs) = v # fulfilled rs"

definition promise_all :: "(nat \<Rightarrow> nat) \<Rightarrow> 'a io list \<Rightarrow> 'a list io" where
  "promise_all fin tasks =
     (\<lambda>log. case run_tasks (sort_key (\<lambda>p. fin (fst p)) (enumerate 0 tasks)) log of
        (settled, log') \<Rightarrow>
          (case first_rejection (map snd settled) of
             Some e \<Rightarrow> (Inl e, log')
           | None \<Rightarrow> (Inr (fulfilled (map snd (sort_key fst settled))), log')))"

section \<open>Text functions of the JavaScript runtime\<close>

definition base64_alphabet :: string where
  "base64_alphabet = ''ABCDEFGHIJKLMNOPQRSTUVWXYZabcdefghijklmnopqrstuvwxyz0123456789+/''"

definition base64_char :: "nat \<Rightarrow> char" where
  "base64_char n = base64_alphabet ! (n mod 64)"

fun base64 :: "nat list \<Rightarrow> string" where
  "base64 [] = []"
| "base64 [a] = [base64_char (a div 4), base64_char ((a mod 4) * 16), CHR ''='', CHR ''='']"
| "base64 [a, b] =
     [base64_char (a div 4), base64_char ((a mod 4) * 16 + b div 16),
      base64_char ((b mod 16) * 4), CHR ''='']"
| "base64 (a # b # c # bs) =
     [base64_char (a div 4), base64_char ((a mod 4) * 16 + b div 16),
      base64_char ((b mod 16) * 4 + c div 64), base64_char (c mod 64)] @ base64 bs"

text \<open>\<^verbatim>\<open>btoa\<close>: every character is one byte (all code units are below 256 here).\<close>

definition btoa :: "string \<Rightarrow> string" where
  "btoa s = base64 (map of_char s)"

definition hex_digit :: "nat \<Rightarrow> char" where
  "hex_digit n = ''0123456789ABCDEF'' ! (n mod 16)"

definition percent_byte :: "nat \<Rightarrow> string" where
  "percent_byte b = [CHR ''%'', hex_digit (b div 16), hex_digit (b mod 16)]"

definition uri_unreserved :: "char \<Rightarrow> bool" where
  "uri_unreserved c =
     (let n = (of_char c :: nat) in
        (65 \<le> n \<and> n \<le> 90) \<or> (97 \<le> n \<and> n \<le> 122) \<or> (48 \<le> n \<and> n \<le> 57)
        \<or> c \<in> set ''-_.!~*'' \<or> n = 39 \<or> n = 40 \<or> n = 41)"

text \<open>
  \<^verbatim>\<open>encodeURIComponent\<close>: the UTF-8 bytes of every character outside the unreserved
  set, each as \<^verbatim>\<open>%XX\<close>; a character from 128 to 255 has two bytes. The argument
  \<^verbatim>\<open>undefined\<close> is converted to the text \<^verbatim>\<open>undefined\<close> first.
\<close>

definition encode_char :: "char \<Rightarrow> string" where
  "encode_char c =
     (let n = (of_char c :: nat) in
        if uri_unreserved c then [c]
        else if n < 128 then percent_byte n
        else percent_byte (192 + n div 64) @ percent_byte (128 + n mod 64))"

definition encodeURIComponent :: "string option \<Rightarrow> string" where
  "encodeURIComponent v =
     (case v of None \<Rightarrow> ''undefined'' | Some s \<Rightarrow> concat (map encode_char s))"

text \<open>\<^verbatim>\<open>text.replace(pattern, replacement)\<close> with a text pattern: the first occurrence only.\<close>

fun replace :: "string \<Rightarrow> string \<Rightarrow> string \<Rightarrow> string" where
  "replace pat rep [] = (if pat = [] then rep else [])"
| "replace pat rep (c # s) =
     (if take (length pat) (c # s) = pat then rep @ drop (length pat) (c # s)
      else c # replace pat rep s)"

section \<open>The helper (azureDevOps.ts)\<close>

definition API_VERSION :: string where
  "API_VERSION = ''7.1''"

definition getBaseUrl :: "string \<Rightarrow> string \<Rightarrow> string \<Rightarrow> string" where
  "getBaseUrl org proj repo =
     ''https://dev.azure.com/'' @ org @ ''/'' @ proj @ ''/_apis/git/repositories/'' @ repo"

definition getPrDetailsUrl :: "string \<Rightarrow> number \<Rightarrow> string" where
  "getPrDetailsUrl baseUrl prId =
     baseUrl @ ''/pullRequests/'' @ string_of_number prId @ ''?api-version='' @ API_VERSION"

definition getDiffsUrl :: "string \<Rightarrow> string \<Rightarrow> string \<Rightarrow> string" where
  "getDiffsUrl baseUrl sourceBranch targetBranch =
     baseUrl @ ''/diffs/commits?baseVersion='' @ targetBranch @ ''&targetVersion='' @ sourceBranch
       @ ''&$top=2000&api-version='' @ API_VERSION"

definition getBlobUrl :: "string \<Rightarrow> string \<Rightarrow> string" where
  "getBlobUrl baseUrl sha = baseUrl @ ''/blobs/'' @ sha @ ''?api-version='' @ API_VERSION"

definition getThreadUrl :: "string \<Rightarrow> number \<Rightarrow> string" where
  "getThreadUrl baseUrl prId =
     baseUrl @ ''/pullRequests/'' @ string_of_number prId @ ''/threads?api-version='' @ API_VERSION"

definition getDefaultHeaders :: "AzureDevOpsHelper \<Rightarrow> (string \<times> string) list io" where
  "getDefaultHeaders this =
     bind (call_tokenProvider this) (\<lambda>authOptions.
       if token authOptions = [] then throw MissingCredential
       else
         let authorization =
               (if auth_type authOptions = ''pat''
                then ''Basic '' @ btoa ('':'' @ token authOptions)
                else ''Bearer '' @ token authOptions)
         in return [(''Authorization'', authorization),
                    (''Content-Type'', ''application/json''),
                    (''Accept'', ''application/json'')])"

definition isSupportedChange :: "GitChange \<Rightarrow> bool" where
  "isSupportedChange change =
     (changeType change \<in> set [''add'', ''edit'']
      \<and> gitObjectType (item change) = ''blob''
      \<and> path (item change) \<noteq> None
      \<and> url (item change) \<noteq> None)"

text \<open>
  The object spread \<^verbatim>\<open>{...headers, ...options.headers}\<close>: a key of the second object
  replaces the value of the same key of the first and keeps its place, a new key is
  added at the end.
\<close>

fun set_header :: "(string \<times> string) list \<Rightarrow> string \<times> string \<Rightarrow> (string \<times> string) list" where
  "set_header [] kv = [kv]"
| "set_header ((k', v') # hs) kv =
     (if k' = fst kv then (k', snd kv) # hs else (k', v') # set_header hs kv)"

definition spread :: "(string \<times> string) list \<Rightarrow> (string \<times> string) list \<Rightarrow> (string \<times> string) list" where
  "spread hs custom = foldl set_header hs custom"

definition sendRequest :: "runtime \<Rightarrow> AzureDevOpsHelper \<Rightarrow> string \<Rightarrow> string \<Rightarrow> RequestInit \<Rightarrow> Response io" where
  "sendRequest rt this u errorMessage options =
     bind (getDefaultHeaders this) (\<lambda>hs.
       bind (call_fetch rt u (options\<lparr>headers := spread hs (headers options)\<rparr>)) (\<lambda>response.
         if \<not> ok response
         then throw (RemoteRequestFailed errorMessage (resp_status response) (statusText response))
         else return response))"

text \<open>The default \<^verbatim>\<open>options = {}\<close>.\<close>

definition no_options :: RequestInit where
  "no_options = \<lparr>http_method = None, headers = [], body = None\<rparr>"

definition getBlobContent :: "runtime \<Rightarrow> AzureDevOpsHelper \<Rightarrow> string \<Rightarrow> string io" where
  "getBlobContent rt this u =
     bind (sendRequest rt this u ''Failed to download blob content''
             (no_options\<lparr>headers := [(''Accept'', ''text/plain'')]\<rparr>))
       (\<lambda>fileResponse. return (resp_text fileResponse))"

text \<open>
  \<^verbatim>\<open>response.json() as PullRequest\<close> and \<^verbatim>\<open>response.json() as CommitDiffs\<close>: the promise is
  rejected when the body is not JSON; the cast is a promise of the server, and a body of
  another shape is outside the typed model (it is an error here).
\<close>

definition json_as_PullRequest :: "Response \<Rightarrow> PullRequest option io" where
  "json_as_PullRequest r =
     (case resp_json r of Some (PullRequestJson p) \<Rightarrow> return p | _ \<Rightarrow> throw MalformedResponse)"

definition json_as_CommitDiffs :: "Response \<Rightarrow> CommitDiffs io" where
  "json_as_CommitDiffs r =
     (case resp_json r of Some (CommitDiffsJson d) \<Rightarrow> return d | _ \<Rightarrow> throw MalformedResponse)"

definition getPrDetails :: "runtime \<Rightarrow> AzureDevOpsHelper \<Rightarrow> string \<Rightarrow> PullRequest io" where
  "getPrDetails rt this u =
     bind (sendRequest rt this u ''Failed to get PR details'' no_options) (\<lambda>response.
       bind (json_as_PullRequest response) (\<lambda>prDetails.
         case prDetails of
           None \<Rightarrow> throw PullRequestNotActive
         | Some pr \<Rightarrow>
             if status pr \<noteq> Some ''active'' then throw PullRequestNotActive
             else if mergeStatus pr \<noteq> Some ''succeeded'' then throw PullRequestHasConflicts
             else return pr))"

definition getGitChanges :: "runtime \<Rightarrow> AzureDevOpsHelper \<Rightarrow> string \<Rightarrow> GitChange list io" where
  "getGitChanges rt this u =
     bind (sendRequest rt this u ''Failed to get git changes'' no_options) (\<lambda>response.
       bind (json_as_CommitDiffs response) (\<lambda>data.
         return (case changes data of None \<Rightarrow> [] | Some cs \<Rightarrow> cs)))"

text \<open>
  \<^verbatim>\<open>if (fileItem.originalObjectId)\<close>: an id that is \<^verbatim>\<open>undefined\<close> or the empty text is
  falsy, and no blob is downloaded for it.
\<close>

definition download_if_present :: "runtime \<Rightarrow> AzureDevOpsHelper \<Rightarrow> string \<Rightarrow> string option \<Rightarrow> string option io" where
  "download_if_present rt this baseUrl blobId =
     (case blobId of
        None \<Rightarrow> return None
      | Some sha \<Rightarrow>
          if sha = [] then return None
          else bind (getBlobContent rt this (getBlobUrl baseUrl sha)) (\<lambda>c. return (Some c)))"

text \<open>\<^verbatim>\<open>content || ''\<close>.\<close>

definition or_empty :: "string option \<Rightarrow> string" where
  "or_empty v = (case v of None \<Rightarrow> [] | Some s \<Rightarrow> s)"

definition getFilePatch :: "runtime \<Rightarrow> AzureDevOpsHelper \<Rightarrow> GitItem \<Rightarrow> string \<Rightarrow> FilePatch io" where
  "getFilePatch rt this fileItem baseUrl =
     bind (download_if_present rt this baseUrl (originalObjectId fileItem)) (\<lambda>source.
       bind (download_if_present rt this baseUrl (objectId fileItem)) (\<lambda>newContent.
         return \<lparr>filePath = path fileItem, sourceContent = source,
                 patch = createPatch rt (path fileItem) (or_empty source) (or_empty newContent)\<rparr>))"

definition branch_of :: "string option \<Rightarrow> string" where
  "branch_of refName = encodeURIComponent (map_option (replace ''refs/heads/'' []) refName)"

definition getPrFileChanges :: "runtime \<Rightarrow> AzureDevOpsHelper \<Rightarrow> FilePatch list io" where
  "getPrFileChanges rt this =
     (case parsePrUrl (prUrl this) of
        Inl e \<Rightarrow> throw e
      | Inr prInfo \<Rightarrow>
          let baseUrl = getBaseUrl (organization prInfo) (project prInfo) (repository prInfo);
              prDetailsUrl = getPrDetailsUrl baseUrl (pullRequestId prInfo)
          in bind (getPrDetails rt this prDetailsUrl) (\<lambda>prDetails.
               let sourceBranch = branch_of (sourceRefName prDetails);
                   targetBranch = branch_of (targetRefName prDetails)
               in if sourceBranch = [] \<or> targetBranch = [] then throw BranchResolutionFailed
                  else
                    bind (getGitChanges rt this (getDiffsUrl baseUrl sourceBranch targetBranch))
                      (\<lambda>cs.
                        if cs = [] then throw NoChangesFound
                        else
                          let fileItems = map item (filter isSupportedChange cs)
                          in if fileItems = [] then throw NoEligibleFiles
                             else promise_all (finish rt)
                                    (map (\<lambda>f. getFilePatch rt this f baseUrl) fileItems))))"

definition build_thread :: "PrCommentOptions \<Rightarrow> PrThread" where
  "build_thread options =
     \<lparr>comments = [\<lparr>content = comment options\<rparr>],
      threadContext =
        \<lparr>tc_filePath = opt_filePath options,
         rightFileStart =
           Some \<lparr>line = rightFileStartLine options, offset = rightFileStartOffset options\<rparr>,
         rightFileEnd =
           Some \<lparr>line = rightFileEndLine options, offset = rightFileEndOffset options\<rparr>\<rparr>\<rparr>"

definition postPrComment :: "runtime \<Rightarrow> AzureDevOpsHelper \<Rightarrow> PrCommentOptions \<Rightarrow> unit io" where
  "postPrComment rt this options =
     (case parsePrUrl (prUrl this) of
        Inl e \<Rightarrow> throw e
      | Inr prInfo \<Rightarrow>
          let baseUrl = getBaseUrl (organization prInfo) (project prInfo) (repository prInfo);
              threadUrl = getThreadUrl baseUrl (pullRequestId prInfo)
          in bind (sendRequest rt this threadUrl ''Failed to create thread''
                     (no_options\<lparr>http_method := Some ''POST'', body := Some (build_thread options)\<rparr>))
               (\<lambda>response. return ()))"

section \<open>The diff synthesizer of the .NET port (AzureDevOpsHelper.cs)\<close>

text \<open>
  \<^verbatim>\<open>GenerateUnifiedDiff\<close> formats the line model that the DiffPlex package builds from the
  two texts; the builder (\<^verbatim>\<open>InlineDiffBuilder.BuildDiffModel\<close>) is a parameter. The
  \<^verbatim>\<open>StringBuilder\<close> is the list of the lines appended to it. The counters are \<^verbatim>\<open>int\<close>:
  a .NET text has fewer than \<open>2 ^ 31\<close> characters, so they never wrap around. A number
  in an interpolated text is written with ASCII digits and the sign \<^verbatim>\<open>-\<close>.
\<close>

datatype ChangeType = Unchanged | Deleted | Inserted | Imaginary | Modified

record DiffPiece =
  piece_type :: ChangeType
  piece_text :: string

record diff_state =
  sb :: "string list"
  oldLineNumber :: int
  newLineNumber :: int
  hunkStart :: int
  hunkLines :: "string list"

definition WriteHunk :: "string list \<Rightarrow> int \<Rightarrow> int \<Rightarrow> int \<Rightarrow> string list \<Rightarrow> string list" where
  "WriteHunk out oldStart oldCount newCount ls =
     out @ [''@@ -'' @ string_of_int oldStart @ '','' @ string_of_int oldCount
            @ '' +'' @ string_of_int oldStart @ '','' @ string_of_int newCount @ '' @@''] @ ls"

text \<open>The body of the \<^verbatim>\<open>foreach\<close> over \<^verbatim>\<open>diff.Lines\<close>.\<close>

definition diff_step :: "diff_state \<Rightarrow> DiffPiece \<Rightarrow> diff_state" where
  "diff_step st ln =
     (case piece_type ln of
        Unchanged \<Rightarrow>
          (let st1 = (if hunkLines st \<noteq> []
                      then st\<lparr>sb := WriteHunk (sb st) (hunkStart st)
                                       (oldLineNumber st - hunkStart st)
                                       (newLineNumber st - hunkStart st) (hunkLines st),
                              hunkLines := []\<rparr>
                      else st)
           in st1\<lparr>hunkStart := oldLineNumber st1,
                  oldLineNumber := oldLineNumber st1 + 1,
                  newLineNumber := newLineNumber st1 + 1\<rparr>)
      | Deleted \<Rightarrow>
          (let st1 = (if hunkLines st = [] then st\<lparr>hunkStart := oldLineNumber st\<rparr> else st)
           in st1\<lparr>hunkLines := hunkLines st1 @ [CHR ''-'' # piece_text ln],
                  oldLineNumber := oldLineNumber st1 + 1\<rparr>)
      | Inserted \<Rightarrow>
          (let st1 = (if hunkLines st = [] then st\<lparr>hunkStart := newLineNumber st\<rparr> else st)
           in st1\<lparr>hunkLines := hunkLines st1 @ [CHR ''+'' # piece_text ln],
                  newLineNumber := newLineNumber st1 + 1\<rparr>)
      | Modified \<Rightarrow>
          (let st1 = (if hunkLines st = [] then st\<lparr>hunkStart := oldLineNumber st\<rparr> else st)
           in st1\<lparr>hunkLines := hunkLines st1 @ [CHR ''-'' # piece_text ln, CHR ''+'' # piece_text ln],
                  oldLineNumber := oldLineNumber st1 + 1,
                  newLineNumber := newLineNumber st1 + 1\<rparr>)
      | Imaginary \<Rightarrow> st)"

definition diff_init :: "string \<Rightarrow> diff_state" where
  "diff_init fileName =
     \<lparr>sb = [''--- a/'' @ fileName, ''+++ b/'' @ fileName],
      oldLineNumber = 1, newLineNumber = 1, hunkStart = 0, hunkLines = []\<rparr>"

text \<open>The lines of the result, one for each \<^verbatim>\<open>AppendLine\<close>.\<close>

definition GenerateUnifiedDiffLines ::
  "(string \<Rightarrow> string \<Rightarrow> DiffPiece list) \<Rightarrow> string \<Rightarrow> string \<Rightarrow> string \<Rightarrow> string list" where
  "GenerateUnifiedDiffLines BuildDiffModel fileName oldText newText =
     (let st = foldl diff_step (diff_init fileName) (BuildDiffModel oldText newText)
      in if hunkLines st \<noteq> []
         then WriteHunk (sb st) (hunkStart st) (oldLineNumber st - hunkStart st)
                (newLineNumber st - hunkStart st) (hunkLines st)
         else sb st)"

text \<open>\<^verbatim>\<open>sb.ToString()\<close>: every line is followed by \<^verbatim>\<open>Environment.NewLine\<close>.\<close>

definition GenerateUnifiedDiff ::
  "string \<Rightarrow> (string \<Rightarrow> string \<Rightarrow> DiffPiece list) \<Rightarrow> string \<Rightarrow> string \<Rightarrow> string \<Rightarrow> string" where
  "GenerateUnifiedDiff NewLine BuildDiffModel fileName oldText newText =
     concat (map (\<lambda>l. l @ NewLine)
       (GenerateUnifiedDiffLines BuildDiffModel fileName oldText newText))"

section \<open>Sample values\<close>

definition sample_item :: "string \<Rightarrow> GitItem" where
  "sample_item ty =
     \<lparr>objectId = Some ''1f'', originalObjectId = None, gitObjectType = ty,
      commitId = ''c0'', path = Some ''/a.ts'', isFolder = None, url = Some ''https://h/a''\<rparr>"

definition sample_pr :: "string \<Rightarrow> string \<Rightarrow> PullRequest" where
  "sample_pr st ms =
     \<lparr>pr_pullRequestId = Num 123, status = Some st, mergeStatus = Some ms,
      sourceRefName = Some ''refs/heads/feature/x'', targetRefName = Some ''refs/heads/main''\<rparr>"

definition sample_response :: "nat \<Rightarrow> json option \<Rightarrow> string \<Rightarrow> Response" where
  "sample_response code j t =
     \<lparr>resp_status = code, statusText = ''OK'', resp_text = t, resp_json = j\<rparr>"

text \<open>
  A server for the examples: it answers the first request with a pull request, the
  second with a change list and every later one with the blob \<^verbatim>\<open>hello\<close>.
\<close>

definition sample_fetch ::
  "PullRequest \<Rightarrow> GitChange list \<Rightarrow> effect list \<Rightarrow> string \<Rightarrow> RequestInit \<Rightarrow> error + Response" where
  "sample_fetch pr cs log u options =
     Inr (case length (filter (\<lambda>e. e \<noteq> TokenRequested) log) of
            0 \<Rightarrow> sample_response 200 (Some (PullRequestJson (Some pr))) []
          | Suc 0 \<Rightarrow> sample_response 200 (Some (CommitDiffsJson \<lparr>changes = Some cs\<rparr>)) []
          | Suc (Suc n) \<Rightarrow> sample_response 200 None ''hello\<newline>'')"

text \<open>A line differ for the examples, in the place of the DiffPlex builder: the common
  lines at the start and at the end are unchanged, the old lines between them are
  deleted and the new ones inserted.\<close>

fun split_lines :: "string \<Rightarrow> string list" where
  "split_lines [] = [[]]"
| "split_lines (c # s) =
     (if c = CHR 0x0A then [] # split_lines s
      else (case split_lines s of [] \<Rightarrow> [[c]] | l # ls \<Rightarrow> (c # l) # ls))"

fun common_prefix :: "'a list \<Rightarrow> 'a list \<Rightarrow> 'a list" where
  "common_prefix (a # as) (b # bs) = (if a = b then a # common_prefix as bs else [])"
| "common_prefix as bs = []"

definition sample_BuildDiffModel :: "string \<Rightarrow> string \<Rightarrow> DiffPiece list" where
  "sample_BuildDiffModel oldText newText =
     (let a = split_lines oldText; b = split_lines newText;
          pre = common_prefix a b;
          a' = drop (length pre) a; b' = drop (length pre) b;
          suf = rev (common_prefix (rev a') (rev b'))
      in map (\<lambda>t. \<lparr>piece_type = Unchanged, piece_text = t\<rparr>) pre
         @ map (\<lambda>t. \<lparr>piece_type = Deleted, piece_text = t\<rparr>) (take (length a' - length suf) a')
         @ map (\<lambda>t. \<lparr>piece_type = Inserted, piece_text = t\<rparr>) (take (length b' - length suf) b')
         @ map (\<lambda>t. \<lparr>piece_type = Unchanged, piece_text = t\<rparr>) suf)"

definition sample_runtime :: "PullRequest \<Rightarrow> GitChange list \<Rightarrow> runtime" where
  "sample_runtime pr cs =
     \<lparr>fetch = sample_fetch pr cs,
      createPatch = (\<lambda>p. GenerateUnifiedDiff ''\<newline>'' sample_BuildDiffModel (or_empty p)),
      finish = (\<lambda>i. 10 - i)\<rparr>"

definition sample_auth :: AuthOptions where
  "sample_auth = \<lparr>auth_type = ''pat'', token = ''abc''\<rparr>"

definition sample_helper :: "string \<Rightarrow> AzureDevOpsHelper" where
  "sample_helper u = \<lparr>prUrl = u, tokenProvider = (\<lambda>log. Inr sample_auth)\<rparr>"

definition sample_url :: string where
  "sample_url = ''https://dev.azure.com/org/project/_git/repo/pullrequest/123''"

definition sample_options :: PrCommentOptions where
  "sample_options =
     \<lparr>opt_prUrl = sample_url, comment = ''Looks wrong'', opt_filePath = ''/a.ts'',
      rightFileStartLine = 3, rightFileStartOffset = 1,
      rightFileEndLine = 3, rightFileEndOffset = 9\<rparr>"

definition blobless :: GitChange where
  "blobless = \<lparr>item = (sample_item ''blob'')\<lparr>objectId := None\<rparr>, changeType = ''edit''\<rparr>"



definition sample_embedded_url :: string where
  "sample_embedded_url = ''see https://dev.azure.com/o/p/_git/r/pullrequest/12abc''"

section \<open>Notions used to state the properties\<close>





text \<open>Two texts that are equal when the case of the ASCII letters is ignored.\<close>

definition same_text :: "string \<Rightarrow> string \<Rightarrow> bool" where
  "same_text a b = (map canonicalize a = map canonicalize b)"

text \<open>The texts that a node of a pattern can match.\<close>

fun piece_ok :: "node \<Rightarrow> string \<Rightarrow> bool" where
  "piece_ok (Lit l) t = same_text l t"
| "piece_ok LazyAny t = (t \<noteq> [] \<and> (\<forall>c \<in> set t. \<not> is_line_terminator c))"
| "piece_ok Digits t = (t \<noteq> [] \<and> (\<forall>c \<in> set t. is_digit c))"

text \<open>The texts of the groups, given one text for every node of a pattern.\<close>

fun captures :: "node list \<Rightarrow> string list \<Rightarrow> string list" where
  "captures (Lit l # p) (t # ts) = captures p ts"
| "captures (LazyAny # p) (t # ts) = t # captures p ts"
| "captures (Digits # p) (t # ts) = t # captures p ts"
| "captures p ts = []"

text \<open>
  The pattern occurs in a text: some part of the text is a sequence of texts, one for
  each node of the pattern, that the nodes can match.
\<close>

definition occurs :: "node list \<Rightarrow> string \<Rightarrow> bool" where
  "occurs p s = (\<exists>pre ts rest. s = pre @ concat ts @ rest \<and> list_all2 piece_ok p ts)"

text \<open>
  A name between two slashes of a pull-request URL: not empty, without a slash and
  without a line terminator. The text of an id: one decimal digit or more.
\<close>

definition segment :: "string \<Rightarrow> bool" where
  "segment t = (t \<noteq> [] \<and> (\<forall>c \<in> set t. c \<noteq> CHR ''/'' \<and> \<not> is_line_terminator c))"

definition id_text :: "string \<Rightarrow> bool" where
  "id_text t = (t \<noteq> [] \<and> (\<forall>c \<in> set t. is_digit c))"

text \<open>No two slashes next to each other.\<close>

definition no_double_slash :: "string \<Rightarrow> bool" where
  "no_double_slash xs = successively (\<lambda>a b. a \<noteq> CHR ''/'' \<or> b \<noteq> CHR ''/'') xs"

section \<open>Properties\<close>

lemmas io_defs = bind_def return_def throw_def call_tokenProvider_def call_fetch_def

subsection \<open>Eligibility of a change entry\<close>

text \<open>
  C4. A change entry passes \<open>isSupportedChange\<close> if and only if its change type is
  \<^verbatim>\<open>add\<close> or \<^verbatim>\<open>edit\<close>, the object type of its item is \<^verbatim>\<open>blob\<close>, and the path and the url of
  the item are present. In every list, the entries that pass the filter are never of type
  \<^verbatim>\<open>delete\<close>, \<^verbatim>\<open>rename\<close> or \<^verbatim>\<open>move\<close> and never have a \<^verbatim>\<open>tree\<close> item, whatever their path and
  url.
\<close>

theorem eligible_iff:
  "(isSupportedChange c \<longleftrightarrow>
      (changeType c = ''add'' \<or> changeType c = ''edit'')
      \<and> gitObjectType (item c) = ''blob''
      \<and> path (item c) \<noteq> None \<and> url (item c) \<noteq> None)
   \<and> (\<forall>c' \<in> set (filter isSupportedChange cs).
         changeType c' \<notin> {''delete'', ''rename'', ''move''} \<and> gitObjectType (item c') \<noteq> ''tree'')"
  by (auto simp: isSupportedChange_def)

theorem eligible_iff_witness:
  "filter isSupportedChange
     [\<lparr>item = sample_item ''blob'', changeType = ''delete''\<rparr>,
      \<lparr>item = sample_item ''blob'', changeType = ''add''\<rparr>,
      \<lparr>item = sample_item ''tree'', changeType = ''edit''\<rparr>,
      \<lparr>item = sample_item ''blob'', changeType = ''rename''\<rparr>,
      \<lparr>item = sample_item ''blob'', changeType = ''move''\<rparr>]
   = [\<lparr>item = sample_item ''blob'', changeType = ''add''\<rparr>]
   \<and> isSupportedChange \<lparr>item = sample_item ''blob'', changeType = ''add''\<rparr>"
  using eligible_iff [of "\<lparr>item = sample_item ''blob'', changeType = ''add''\<rparr>" "[]"]
        eligible_iff [of "\<lparr>item = sample_item ''blob'', changeType = ''delete''\<rparr>" "[]"]
        eligible_iff [of "\<lparr>item = sample_item ''tree'', changeType = ''edit''\<rparr>" "[]"]
        eligible_iff [of "\<lparr>item = sample_item ''blob'', changeType = ''rename''\<rparr>" "[]"]
        eligible_iff [of "\<lparr>item = sample_item ''blob'', changeType = ''move''\<rparr>" "[]"]
  by (simp add: sample_item_def)

subsection \<open>A locator failure comes first\<close>

lemma parse_not_a_url: "parsePrUrl ''not a url'' = Inl InvalidLocator"
  by (simp add: parsePrUrl_def parsePrUrlInternal_def devAzureRegex_def visualStudioRegex_def
      is_digit_def is_line_terminator_def canonicalize_def)

text \<open>
  C10. When parsing the URL of the helper fails, \<open>getPrFileChanges\<close> and
  \<open>postPrComment\<close> both fail with that error (which is \<open>InvalidLocator\<close>) and leave the
  effects as they were: the token provider is not called and no request is sent.
\<close>

theorem locator_failure_no_effect:
  assumes "parsePrUrl (prUrl this) = Inl e"
  shows "e = InvalidLocator
     \<and> getPrFileChanges rt this log = (Inl InvalidLocator, log)
     \<and> postPrComment rt this options log = (Inl InvalidLocator, log)"
proof -
  from assms have e: "e = InvalidLocator"
    by (auto simp: parsePrUrl_def split: option.splits)
  with assms show ?thesis
    by (simp add: getPrFileChanges_def postPrComment_def throw_def)
qed

theorem locator_failure_no_effect_witness:
  "getPrFileChanges (sample_runtime (sample_pr ''active'' ''succeeded'') [])
       (sample_helper ''not a url'') []
     = (Inl InvalidLocator, [])
   \<and> postPrComment (sample_runtime (sample_pr ''active'' ''succeeded'') [])
       (sample_helper ''not a url'') sample_options []
     = (Inl InvalidLocator, [])"
  using locator_failure_no_effect
          [of "sample_helper ''not a url''" InvalidLocator
              "sample_runtime (sample_pr ''active'' ''succeeded'') []" "[]" sample_options]
        parse_not_a_url
  by (simp add: sample_helper_def)

subsection \<open>An eligible entry without blob ids\<close>

text \<open>
  C9. An \<^verbatim>\<open>add\<close> or \<^verbatim>\<open>edit\<close> entry on a blob with a path and a url, but with neither
  \<open>objectId\<close> nor \<open>originalObjectId\<close>, is eligible, and \<open>getFilePatch\<close> succeeds on its
  item without any effect: the patch is \<open>createPatch\<close> of the empty text against the
  empty text and \<open>sourceContent\<close> is absent.
\<close>

theorem blobless_entry:
  assumes "changeType c = ''add'' \<or> changeType c = ''edit''"
    and "gitObjectType (item c) = ''blob''"
    and "path (item c) = Some p" and "url (item c) = Some u"
    and "objectId (item c) = None" and "originalObjectId (item c) = None"
  shows "isSupportedChange c
     \<and> getFilePatch rt this (item c) baseUrl log
         = (Inr \<lparr>filePath = Some p, sourceContent = None, patch = createPatch rt (Some p) [] []\<rparr>, log)"
  using assms
  by (auto simp: isSupportedChange_def getFilePatch_def download_if_present_def or_empty_def io_defs)

lemma sample_diff_empty: "sample_BuildDiffModel [] [] = [\<lparr>piece_type = Unchanged, piece_text = []\<rparr>]"
  by (simp add: sample_BuildDiffModel_def)

theorem blobless_entry_witness:
  "isSupportedChange blobless
   \<and> getFilePatch (sample_runtime (sample_pr ''active'' ''succeeded'') [blobless])
        (sample_helper sample_url) (item blobless) ''https://dev.azure.com/org/project/_apis/git/repositories/repo'' []
      = (Inr \<lparr>filePath = Some ''/a.ts'', sourceContent = None,
              patch = ''--- a//a.ts\<newline>+++ b//a.ts\<newline>''\<rparr>, [])"
  using blobless_entry [of blobless "''/a.ts''" "''https://h/a''"
          "sample_runtime (sample_pr ''active'' ''succeeded'') [blobless]" "sample_helper sample_url"
          "''https://dev.azure.com/org/project/_apis/git/repositories/repo''" "[]"]
  by (simp add: blobless_def sample_item_def sample_runtime_def GenerateUnifiedDiff_def
      GenerateUnifiedDiffLines_def sample_diff_empty diff_step_def diff_init_def or_empty_def)

subsection \<open>The unified diff of the .NET port\<close>

lemma foldl_unchanged:
  "hunkLines st = [] \<Longrightarrow> \<forall>p\<in>set ps. piece_type p = Unchanged \<Longrightarrow>
   sb (foldl diff_step st ps) = sb st \<and> hunkLines (foldl diff_step st ps) = []"
  by (induction ps arbitrary: st) (simp_all add: diff_step_def)

text \<open>
  C5. When the line model of a text against itself has unchanged pieces only, the
  unified diff of the text against itself, for every file name, is the two header
  lines and nothing else: there is no hunk.
\<close>

theorem identical_content_no_hunks:
  assumes "\<forall>p \<in> set (BuildDiffModel s s). piece_type p = Unchanged"
  shows "GenerateUnifiedDiffLines BuildDiffModel fileName s s
           = [''--- a/'' @ fileName, ''+++ b/'' @ fileName]
     \<and> GenerateUnifiedDiff NewLine BuildDiffModel fileName s s
           = ''--- a/'' @ fileName @ NewLine @ ''+++ b/'' @ fileName @ NewLine"
proof -
  have "hunkLines (diff_init fileName) = []"
    by (simp add: diff_init_def)
  from foldl_unchanged [OF this assms]
  have "GenerateUnifiedDiffLines BuildDiffModel fileName s s = sb (diff_init fileName)"
    by (simp add: GenerateUnifiedDiffLines_def Let_def)
  then show ?thesis
    by (simp add: GenerateUnifiedDiff_def diff_init_def)
qed

lemma sample_diff_same:
  "sample_BuildDiffModel ''x\<newline>y\<newline>'' ''x\<newline>y\<newline>''
     = map (\<lambda>t. \<lparr>piece_type = Unchanged, piece_text = t\<rparr>) [''x'', ''y'', '''']"
  by (simp add: sample_BuildDiffModel_def)

theorem identical_content_no_hunks_witness:
  "GenerateUnifiedDiffLines sample_BuildDiffModel ''/a.ts'' ''x\<newline>y\<newline>'' ''x\<newline>y\<newline>''
           = [''--- a//a.ts'', ''+++ b//a.ts'']
   \<and> GenerateUnifiedDiff ''\<newline>'' sample_BuildDiffModel ''/a.ts'' ''x\<newline>y\<newline>'' ''x\<newline>y\<newline>''
           = ''--- a//a.ts\<newline>+++ b//a.ts\<newline>''"
  using identical_content_no_hunks [of sample_BuildDiffModel "''x\<newline>y\<newline>''" "''/a.ts''" "''\<newline>''"]
  by (simp add: sample_diff_same)












subsection \<open>The REST gateway\<close>

lemma getDefaultHeaders_log:
  "getDefaultHeaders this log = (r, log1) \<Longrightarrow> log1 = log @ [TokenRequested]"
  by (auto simp: getDefaultHeaders_def io_defs Let_def split: sum.splits if_splits)

lemma getDefaultHeaders_Inr:
  assumes "tokenProvider this log = Inr auth" and "token auth \<noteq> []"
  shows "getDefaultHeaders this log =
     (Inr [(''Authorization'',
            if auth_type auth = ''pat'' then ''Basic '' @ btoa ('':'' @ token auth)
            else ''Bearer '' @ token auth),
           (''Content-Type'', ''application/json''),
           (''Accept'', ''application/json'')],
      log @ [TokenRequested])"
  using assms by (simp add: getDefaultHeaders_def io_defs)

lemma map_of_set_header:
  "map_of (set_header hs kv) k = (if k = fst kv then Some (snd kv) else map_of hs k)"
  by (induction hs) (auto)

lemma map_of_spread:
  "k \<notin> fst ` set custom \<Longrightarrow> map_of (spread hs custom) k = map_of hs k"
  unfolding spread_def
  by (induction custom arbitrary: hs) (auto simp: map_of_set_header)

lemma sendRequest_unfold:
  assumes "getDefaultHeaders this log = (Inr hs, log1)"
  shows "sendRequest rt this u msg options log =
     (case fetch rt log1 u (options\<lparr>headers := spread hs (headers options)\<rparr>) of
        Inl e \<Rightarrow> Inl e
      | Inr response \<Rightarrow>
          if ok response then Inr response
          else Inl (RemoteRequestFailed msg (resp_status response) (statusText response)),
      log1 @ [Fetched u (options\<lparr>headers := spread hs (headers options)\<rparr>)])"
  using assms
  by (auto simp: sendRequest_def bind_def return_def throw_def call_fetch_def split: sum.splits)

lemma btoa_abc: "btoa '':abc'' = ''OmFiYw==''"
  by code_simp

text \<open>
  C7. For every credential with a non-empty token that the provider returns, the
  \<^verbatim>\<open>Authorization\<close> header is \<^verbatim>\<open>Basic\<close> followed by the base64 text of a colon and the
  token when the type of the credential is \<^verbatim>\<open>pat\<close>, and \<^verbatim>\<open>Bearer\<close> followed by the token
  otherwise. \<open>sendRequest\<close> sends that header with every URL (the options of a caller
  that do not set the header themselves leave it alone). The token \<^verbatim>\<open>abc\<close> of type \<^verbatim>\<open>pat\<close>
  gives exactly \<^verbatim>\<open>Basic OmFiYw==\<close>.
\<close>

theorem authorization_header:
  assumes "tokenProvider this log = Inr auth" and "token auth \<noteq> []"
  shows "getDefaultHeaders this log =
     (Inr [(''Authorization'',
            if auth_type auth = ''pat'' then ''Basic '' @ btoa ('':'' @ token auth)
            else ''Bearer '' @ token auth),
           (''Content-Type'', ''application/json''),
           (''Accept'', ''application/json'')],
      log @ [TokenRequested])
   \<and> (''Authorization'' \<notin> fst ` set (headers options) \<longrightarrow>
        (\<exists>r hs. sendRequest rt this u msg options log
                  = (r, log @ [TokenRequested, Fetched u (options\<lparr>headers := hs\<rparr>)])
           \<and> map_of hs ''Authorization''
               = Some (if auth_type auth = ''pat'' then ''Basic '' @ btoa ('':'' @ token auth)
                       else ''Bearer '' @ token auth)))
   \<and> (auth_type auth = ''pat'' \<and> token auth = ''abc'' \<longrightarrow>
        (\<exists>rest. getDefaultHeaders this log
                 = (Inr ((''Authorization'', ''Basic OmFiYw=='') # rest), log @ [TokenRequested])))"
proof -
  define A where "A = (if auth_type auth = ''pat'' then ''Basic '' @ btoa ('':'' @ token auth)
                       else ''Bearer '' @ token auth)"
  define dh where "dh = [(''Authorization'', A), (''Content-Type'', ''application/json''),
                         (''Accept'', ''application/json'')]"
  have h: "getDefaultHeaders this log = (Inr dh, log @ [TokenRequested])"
    using getDefaultHeaders_Inr [OF assms] by (simp add: dh_def A_def)
  have "\<exists>r hs. sendRequest rt this u msg options log
                  = (r, log @ [TokenRequested, Fetched u (options\<lparr>headers := hs\<rparr>)])
           \<and> map_of hs ''Authorization'' = Some A"
    if "''Authorization'' \<notin> fst ` set (headers options)"
  proof -
    have "map_of (spread dh (headers options)) ''Authorization'' = Some A"
      using that by (simp add: map_of_spread dh_def)
    moreover have "\<exists>r. sendRequest rt this u msg options log
        = (r, log @ [TokenRequested, Fetched u (options\<lparr>headers := spread dh (headers options)\<rparr>)])"
      by (simp add: sendRequest_unfold [OF h])
    ultimately show ?thesis by blast
  qed
  moreover have "\<exists>rest. getDefaultHeaders this log
                 = (Inr ((''Authorization'', ''Basic OmFiYw=='') # rest), log @ [TokenRequested])"
    if "auth_type auth = ''pat'' \<and> token auth = ''abc''"
    using that h btoa_abc by (simp add: dh_def A_def)
  ultimately show ?thesis using h unfolding dh_def A_def by blast
qed

theorem authorization_header_witness:
  "getDefaultHeaders (sample_helper sample_url) [] =
     (Inr [(''Authorization'', ''Basic OmFiYw==''),
           (''Content-Type'', ''application/json''),
           (''Accept'', ''application/json'')], [TokenRequested])
   \<and> (\<exists>r hs. sendRequest (sample_runtime (sample_pr ''active'' ''succeeded'') [])
                 (sample_helper sample_url) ''https://h/x'' ''Error''
                 (no_options\<lparr>headers := [(''Accept'', ''text/plain'')]\<rparr>) []
               = (r, [TokenRequested,
                      Fetched ''https://h/x'' (no_options\<lparr>headers := hs\<rparr>)])
        \<and> map_of hs ''Authorization'' = Some ''Basic OmFiYw=='')"
  using authorization_header [of "sample_helper sample_url" "[]" sample_auth
          "no_options\<lparr>headers := [(''Accept'', ''text/plain'')]\<rparr>"
          "sample_runtime (sample_pr ''active'' ''succeeded'') []" "''https://h/x''" "''Error''"]
        btoa_abc
  by (simp add: sample_helper_def sample_auth_def no_options_def)

lemmas char_eval = is_digit_def is_line_terminator_def canonicalize_def digit_value_def
  digit_char_def char_of_def bit_0

lemmas parse_eval = parsePrUrl_def parsePrUrlInternal_def devAzureRegex_def
  visualStudioRegex_def parseInt10_def decimal_value_def

lemma parse_sample_url:
  "parsePrUrl sample_url =
     Inr \<lparr>organization = ''org'', project = ''project'', repository = ''repo'',
           pullRequestId = Num 123\<rparr>"
  by (simp add: sample_url_def parse_eval char_eval)

subsection \<open>Resolving the changes\<close>

lemma spread_Nil: "spread hs [] = hs"
  by (simp add: spread_def)

lemma details_url_not_diffs_url: "getPrDetailsUrl b i \<noteq> getDiffsUrl b s t"
  by (simp add: getPrDetailsUrl_def getDiffsUrl_def)

text \<open>
  C3. The URL parses, the credential gives the headers \<open>hs\<close>, and the server answers the
  request for the pull-request details with a success status and the summary \<open>pr\<close>.
  When the status of \<open>pr\<close> is not \<^verbatim>\<open>active\<close>, \<open>getPrFileChanges\<close> fails with
  \<open>PullRequestNotActive\<close>; when the status is \<^verbatim>\<open>active\<close> and the merge status is not
  \<^verbatim>\<open>succeeded\<close>, it fails with \<open>PullRequestHasConflicts\<close>. In both cases its effects are the
  call of the token provider and the one request for the details, whose URL is not a URL
  of the change list: no request for the diffs has been sent.
\<close>

theorem inactive_pr_stops_before_diffs:
  assumes "parsePrUrl (prUrl this) = Inr prInfo"
    and "baseUrl = getBaseUrl (organization prInfo) (project prInfo) (repository prInfo)"
    and "detailsUrl = getPrDetailsUrl baseUrl (pullRequestId prInfo)"
    and "getDefaultHeaders this log = (Inr hs, log1)"
    and "fetch rt log1 detailsUrl (no_options\<lparr>headers := hs\<rparr>) = Inr response"
    and "ok response"
    and "resp_json response = Some (PullRequestJson (Some pr))"
  shows "(status pr \<noteq> Some ''active'' \<longrightarrow>
            getPrFileChanges rt this log
              = (Inl PullRequestNotActive,
                 log @ [TokenRequested, Fetched detailsUrl (no_options\<lparr>headers := hs\<rparr>)]))
     \<and> (status pr = Some ''active'' \<and> mergeStatus pr \<noteq> Some ''succeeded'' \<longrightarrow>
            getPrFileChanges rt this log
              = (Inl PullRequestHasConflicts,
                 log @ [TokenRequested, Fetched detailsUrl (no_options\<lparr>headers := hs\<rparr>)]))
     \<and> (\<forall>s t. detailsUrl \<noteq> getDiffsUrl baseUrl s t)"
proof -
  have log1: "log1 = log @ [TokenRequested]"
    using assms(4) by (rule getDefaultHeaders_log)
  have send: "sendRequest rt this detailsUrl ''Failed to get PR details'' no_options log
      = (Inr response, log @ [TokenRequested, Fetched detailsUrl (no_options\<lparr>headers := hs\<rparr>)])"
    using assms(5,6) log1
    by (simp add: sendRequest_unfold [OF assms(4)] no_options_def spread_Nil)
  have details: "getPrDetails rt this detailsUrl log =
      (if status pr \<noteq> Some ''active'' then Inl PullRequestNotActive
       else if mergeStatus pr \<noteq> Some ''succeeded'' then Inl PullRequestHasConflicts
       else Inr pr,
       log @ [TokenRequested, Fetched detailsUrl (no_options\<lparr>headers := hs\<rparr>)])"
    using send assms(7)
    by (simp add: getPrDetails_def json_as_PullRequest_def bind_def return_def throw_def)
  have "getPrFileChanges rt this log =
      (case getPrDetails rt this detailsUrl log of
         (Inl e, l) \<Rightarrow> (Inl e, l)
       | (Inr p, l) \<Rightarrow> getPrFileChanges rt this log)"
    using assms(1,2,3)
    by (auto simp: getPrFileChanges_def bind_def Let_def split: prod.splits sum.splits)
  with details show ?thesis
    using assms(3) by (auto simp: details_url_not_diffs_url)
qed

lemma sample_base_url:
  "getBaseUrl ''org'' ''project'' ''repo''
     = ''https://dev.azure.com/org/project/_apis/git/repositories/repo''"
  by (simp add: getBaseUrl_def)

lemma string_of_123: "string_of_nat 123 = ''123''"
  by (simp add: string_of_nat.simps char_eval)

lemma sample_headers:
  "getDefaultHeaders (sample_helper u) log =
     (Inr [(''Authorization'', ''Basic OmFiYw==''), (''Content-Type'', ''application/json''),
           (''Accept'', ''application/json'')], log @ [TokenRequested])"
  using getDefaultHeaders_Inr [of "sample_helper u" log sample_auth] btoa_abc
  by (simp add: sample_helper_def sample_auth_def)

lemma sample_details_url:
  "''https://dev.azure.com/org/project/_apis/git/repositories/repo/pullRequests/123?api-version=7.1''
     = getPrDetailsUrl ''https://dev.azure.com/org/project/_apis/git/repositories/repo'' (Num 123)"
  by (simp add: getPrDetailsUrl_def API_VERSION_def string_of_123)

theorem inactive_pr_stops_before_diffs_witness:
  "getPrFileChanges (sample_runtime (sample_pr ''completed'' ''succeeded'') [])
       (sample_helper sample_url) []
     = (Inl PullRequestNotActive,
        [TokenRequested,
         Fetched ''https://dev.azure.com/org/project/_apis/git/repositories/repo/pullRequests/123?api-version=7.1''
           \<lparr>http_method = None,
            headers = [(''Authorization'', ''Basic OmFiYw==''),
                       (''Content-Type'', ''application/json''),
                       (''Accept'', ''application/json'')],
            body = None\<rparr>])
   \<and> getPrFileChanges (sample_runtime (sample_pr ''active'' ''conflicts'') [])
       (sample_helper sample_url) []
     = (Inl PullRequestHasConflicts,
        [TokenRequested,
         Fetched ''https://dev.azure.com/org/project/_apis/git/repositories/repo/pullRequests/123?api-version=7.1''
           \<lparr>http_method = None,
            headers = [(''Authorization'', ''Basic OmFiYw==''),
                       (''Content-Type'', ''application/json''),
                       (''Accept'', ''application/json'')],
            body = None\<rparr>])"
proof -
  let ?b = "''https://dev.azure.com/org/project/_apis/git/repositories/repo''"
  let ?d = "''https://dev.azure.com/org/project/_apis/git/repositories/repo/pullRequests/123?api-version=7.1''"
  let ?i = "\<lparr>organization = ''org'', project = ''project'', repository = ''repo'',
             pullRequestId = Num 123\<rparr>"
  let ?hs = "[(''Authorization'', ''Basic OmFiYw==''), (''Content-Type'', ''application/json''),
              (''Accept'', ''application/json'')]"
  have p: "parsePrUrl (prUrl (sample_helper sample_url)) = Inr ?i"
    by (simp add: sample_helper_def parse_sample_url)
  have b: "?b = getBaseUrl (organization ?i) (project ?i) (repository ?i)"
    by (simp add: getBaseUrl_def)
  have d: "?d = getPrDetailsUrl ?b (pullRequestId ?i)"
    using sample_details_url by simp
  have h: "getDefaultHeaders (sample_helper sample_url) [] = (Inr ?hs, [TokenRequested])"
    using sample_headers [of sample_url "[]"] by simp
  have f: "fetch (sample_runtime pr []) [TokenRequested] ?d (no_options\<lparr>headers := ?hs\<rparr>)
      = Inr (sample_response 200 (Some (PullRequestJson (Some pr))) [])" for pr
    by (simp add: sample_runtime_def sample_fetch_def)
  have o: "ok (sample_response 200 j t)" for j t
    by (simp add: ok_def sample_response_def)
  have j: "resp_json (sample_response 200 (Some (PullRequestJson (Some pr))) [])
      = Some (PullRequestJson (Some pr))" for pr
    by (simp add: sample_response_def)
  from inactive_pr_stops_before_diffs [OF p b d h f o j, of "sample_pr ''completed'' ''succeeded''"]
       inactive_pr_stops_before_diffs [OF p b d h f o j, of "sample_pr ''active'' ''conflicts''"]
  show ?thesis
    by (simp add: sample_pr_def no_options_def)
qed

subsection \<open>Publishing a comment\<close>

text \<open>
  C8. The URL parses and the credential gives the headers \<open>hs\<close>. For every comment
  request, \<open>postPrComment\<close> sends exactly one request: a POST to
  \<^verbatim>\<open>{baseUrl}/pullRequests/{id}/threads\<close> (with the API version as its query) whose body is
  a thread with exactly one comment, the supplied text, and a thread context that names
  the supplied file path and the start and end line and offset. It succeeds with no
  value when the status of the answer is from 200 to 299, and fails with
  \<open>RemoteRequestFailed\<close> otherwise.
\<close>

theorem comment_is_one_post:
  assumes "parsePrUrl (prUrl this) = Inr prInfo"
    and "baseUrl = getBaseUrl (organization prInfo) (project prInfo) (repository prInfo)"
    and "threadUrl = baseUrl @ ''/pullRequests/'' @ string_of_number (pullRequestId prInfo)
                       @ ''/threads?api-version=7.1''"
    and "request =
           \<lparr>http_method = Some ''POST'', headers = hs,
            body = Some \<lparr>comments = [\<lparr>content = comment options\<rparr>],
                         threadContext =
                           \<lparr>tc_filePath = opt_filePath options,
                            rightFileStart = Some \<lparr>line = rightFileStartLine options,
                                                   offset = rightFileStartOffset options\<rparr>,
                            rightFileEnd = Some \<lparr>line = rightFileEndLine options,
                                                 offset = rightFileEndOffset options\<rparr>\<rparr>\<rparr>\<rparr>"
    and "getDefaultHeaders this log = (Inr hs, log1)"
    and "fetch rt log1 threadUrl request = Inr response"
  shows "postPrComment rt this options log =
           (if 200 \<le> resp_status response \<and> resp_status response \<le> 299 then Inr ()
            else Inl (RemoteRequestFailed ''Failed to create thread''
                        (resp_status response) (statusText response)),
            log @ [TokenRequested, Fetched threadUrl request])"
proof -
  have log1: "log1 = log @ [TokenRequested]"
    using assms(5) by (rule getDefaultHeaders_log)
  have u: "threadUrl = getThreadUrl baseUrl (pullRequestId prInfo)"
    using assms(3) by (simp add: getThreadUrl_def API_VERSION_def)
  have r: "request = (no_options\<lparr>http_method := Some ''POST'', body := Some (build_thread options)\<rparr>)
               \<lparr>headers := spread hs
                  (headers (no_options\<lparr>http_method := Some ''POST'', body := Some (build_thread options)\<rparr>))\<rparr>"
    using assms(4) by (simp add: no_options_def build_thread_def spread_Nil)
  have "sendRequest rt this threadUrl ''Failed to create thread''
          (no_options\<lparr>http_method := Some ''POST'', body := Some (build_thread options)\<rparr>) log
      = (if ok response then Inr response
         else Inl (RemoteRequestFailed ''Failed to create thread''
                        (resp_status response) (statusText response)),
         log @ [TokenRequested, Fetched threadUrl request])"
    using assms(6) log1 unfolding sendRequest_unfold [OF assms(5)] r [symmetric]
    by simp
  then show ?thesis
    using assms(1) assms(2) u
    by (simp add: postPrComment_def bind_def return_def ok_def Let_def)
qed

theorem comment_is_one_post_witness:
  "postPrComment (sample_runtime (sample_pr ''active'' ''succeeded'') [])
     (sample_helper sample_url) sample_options []
   = (Inr (),
      [TokenRequested,
       Fetched ''https://dev.azure.com/org/project/_apis/git/repositories/repo/pullRequests/123/threads?api-version=7.1''
         \<lparr>http_method = Some ''POST'',
          headers = [(''Authorization'', ''Basic OmFiYw==''),
                     (''Content-Type'', ''application/json''),
                     (''Accept'', ''application/json'')],
          body = Some \<lparr>comments = [\<lparr>content = ''Looks wrong''\<rparr>],
                       threadContext =
                         \<lparr>tc_filePath = ''/a.ts'',
                          rightFileStart = Some \<lparr>line = 3, offset = 1\<rparr>,
                          rightFileEnd = Some \<lparr>line = 3, offset = 9\<rparr>\<rparr>\<rparr>\<rparr>])"
proof -
  let ?b = "''https://dev.azure.com/org/project/_apis/git/repositories/repo''"
  let ?u = "''https://dev.azure.com/org/project/_apis/git/repositories/repo/pullRequests/123/threads?api-version=7.1''"
  let ?i = "\<lparr>organization = ''org'', project = ''project'', repository = ''repo'',
             pullRequestId = Num 123\<rparr>"
  let ?hs = "[(''Authorization'', ''Basic OmFiYw==''), (''Content-Type'', ''application/json''),
              (''Accept'', ''application/json'')]"
  let ?req = "\<lparr>http_method = Some ''POST'', headers = ?hs,
          body = Some \<lparr>comments = [\<lparr>content = comment sample_options\<rparr>],
                       threadContext =
                         \<lparr>tc_filePath = opt_filePath sample_options,
                          rightFileStart = Some \<lparr>line = rightFileStartLine sample_options,
                                                 offset = rightFileStartOffset sample_options\<rparr>,
                          rightFileEnd = Some \<lparr>line = rightFileEndLine sample_options,
                                               offset = rightFileEndOffset sample_options\<rparr>\<rparr>\<rparr>\<rparr>"
  let ?rt = "sample_runtime (sample_pr ''active'' ''succeeded'') []"
  have p: "parsePrUrl (prUrl (sample_helper sample_url)) = Inr ?i"
    by (simp add: sample_helper_def parse_sample_url)
  have b: "?b = getBaseUrl (organization ?i) (project ?i) (repository ?i)"
    by (simp add: getBaseUrl_def)
  have u: "?u = ?b @ ''/pullRequests/'' @ string_of_number (pullRequestId ?i)
                  @ ''/threads?api-version=7.1''"
    by (simp add: string_of_123)
  have h: "getDefaultHeaders (sample_helper sample_url) [] = (Inr ?hs, [TokenRequested])"
    using sample_headers [of sample_url "[]"] by simp
  have f: "fetch ?rt [TokenRequested] ?u ?req
      = Inr (sample_response 200 (Some (PullRequestJson (Some (sample_pr ''active'' ''succeeded'')))) [])"
    by (simp add: sample_runtime_def sample_fetch_def)
  from comment_is_one_post [OF p b u refl h f]
  show ?thesis
    by (simp add: sample_response_def sample_options_def)
qed

subsection \<open>The array of patches\<close>



















subsection \<open>The matcher of the locator patterns\<close>

lemma canonicalize_slash: "canonicalize c = CHR ''/'' \<longleftrightarrow> c = CHR ''/''"
proof
  assume a: "canonicalize c = CHR ''/''"
  show "c = CHR ''/''"
  proof (cases "97 \<le> (of_char c :: nat) \<and> (of_char c :: nat) \<le> 122")
    case True
    with a have "char_of ((of_char c :: nat) - 32) = CHR ''/''"
      by (simp add: canonicalize_def)
    then have "(of_char (char_of ((of_char c :: nat) - 32)) :: nat) = of_char CHR ''/''"
      by simp
    then have "((of_char c :: nat) - 32) mod 256 = 47"
      by simp
    moreover have "((of_char c :: nat) - 32) mod 256 = (of_char c :: nat) - 32"
    proof (rule mod_less)
      from True show "(of_char c :: nat) - 32 < 256" by linarith
    qed
    ultimately have "(of_char c :: nat) - 32 = 47"
      by simp
    with True have False by linarith
    then show ?thesis ..
  next
    case False
    with a show ?thesis by (simp add: canonicalize_def)
  qed
next
  assume "c = CHR ''/''"
  then show "canonicalize c = CHR ''/''" by (simp add: canonicalize_def)
qed

lemma same_text_length: "same_text a b \<Longrightarrow> length a = length b"
  unfolding same_text_def by (rule map_eq_imp_length_eq)

lemma same_text_refl: "same_text a a"
  by (simp add: same_text_def)

lemma lit_prefix_iff:
  "lit_prefix l s \<longleftrightarrow> length l \<le> length s \<and> same_text l (take (length l) s)"
  by (induction l s rule: lit_prefix.induct) (auto simp: same_text_def)

lemma lit_prefix_append:
  "same_text l h \<Longrightarrow> lit_prefix l (h @ t) \<and> drop (length l) (h @ t) = t"
  using same_text_length [of l h] by (simp add: lit_prefix_iff)

lemma lit_prefix_split:
  "lit_prefix l s \<Longrightarrow> \<exists>h. s = h @ drop (length l) s \<and> same_text l h"
  by (metis append_take_drop_id lit_prefix_iff)

subsection \<open>What a match tells about the text\<close>

lemma lazy_ext_sound:
  "lazy_ext k acc s = Some r \<Longrightarrow>
   \<exists>a t caps. s = a @ t \<and> r = (acc @ a) # caps \<and> k t = Some caps
     \<and> (\<forall>c \<in> set a. \<not> is_line_terminator c)"
proof (induction s arbitrary: acc)
  case Nil
  then show ?case by (auto split: option.splits)
next
  case (Cons c s)
  show ?case
  proof (cases "k (c # s)")
    case (Some caps)
    with Cons.prems have "r = (acc @ []) # caps" by simp
    with Some show ?thesis by (metis append_Nil empty_iff list.set(1))
  next
    case None
    with Cons.prems have nl: "\<not> is_line_terminator c"
      and "lazy_ext k (acc @ [c]) s = Some r"
      by (auto split: if_splits)
    from Cons.IH [OF this(2)] obtain a t caps where
      "s = a @ t" "r = ((acc @ [c]) @ a) # caps" "k t = Some caps"
      "\<forall>c \<in> set a. \<not> is_line_terminator c"
      by blast
    with nl have "c # s = (c # a) @ t \<and> r = (acc @ c # a) # caps \<and> k t = Some caps
        \<and> (\<forall>c \<in> set (c # a). \<not> is_line_terminator c)"
      by simp
    then show ?thesis by blast
  qed
qed

lemma lazy_plus_sound:
  assumes "lazy_plus k s = Some r"
  shows "\<exists>a t caps. s = a @ t \<and> piece_ok LazyAny a \<and> r = a # caps \<and> k t = Some caps"
proof (cases s)
  case Nil
  with assms show ?thesis by simp
next
  case (Cons c s')
  with assms have nl: "\<not> is_line_terminator c" and "lazy_ext k [c] s' = Some r"
    by (auto split: if_splits)
  from lazy_ext_sound [OF this(2)] obtain a t caps where
    "s' = a @ t" "r = ([c] @ a) # caps" "k t = Some caps"
    "\<forall>c \<in> set a. \<not> is_line_terminator c"
    by blast
  with nl Cons have "s = (c # a) @ t \<and> piece_ok LazyAny (c # a) \<and> r = (c # a) # caps
      \<and> k t = Some caps"
    by simp
  then show ?thesis by blast
qed

lemma greedy_ext_sound:
  "greedy_ext k acc s = Some r \<Longrightarrow>
   \<exists>a t caps. s = a @ t \<and> r = (acc @ a) # caps \<and> k t = Some caps
     \<and> (\<forall>c \<in> set a. is_digit c)"
proof (induction s arbitrary: acc)
  case Nil
  then show ?case by (auto split: option.splits)
next
  case (Cons c s)
  show ?case
  proof (cases "is_digit c \<and> greedy_ext k (acc @ [c]) s \<noteq> None")
    case True
    with Cons.prems have "greedy_ext k (acc @ [c]) s = Some r"
      by auto
    from Cons.IH [OF this] obtain a t caps where
      "s = a @ t" "r = ((acc @ [c]) @ a) # caps" "k t = Some caps"
      "\<forall>c \<in> set a. is_digit c"
      by blast
    with True have "c # s = (c # a) @ t \<and> r = (acc @ c # a) # caps \<and> k t = Some caps
        \<and> (\<forall>c \<in> set (c # a). is_digit c)"
      by simp
    then show ?thesis by blast
  next
    case False
    with Cons.prems obtain caps where "k (c # s) = Some caps" "r = (acc @ []) # caps"
      by (auto split: option.splits if_splits)
    then show ?thesis by (metis append_Nil empty_iff list.set(1))
  qed
qed

lemma greedy_plus_sound:
  assumes "greedy_plus k s = Some r"
  shows "\<exists>a t caps. s = a @ t \<and> piece_ok Digits a \<and> r = a # caps \<and> k t = Some caps"
proof (cases s)
  case Nil
  with assms show ?thesis by simp
next
  case (Cons c s')
  with assms have d: "is_digit c" and "greedy_ext k [c] s' = Some r"
    by (auto split: if_splits)
  from greedy_ext_sound [OF this(2)] obtain a t caps where
    "s' = a @ t" "r = ([c] @ a) # caps" "k t = Some caps" "\<forall>c \<in> set a. is_digit c"
    by blast
  with d Cons have "s = (c # a) @ t \<and> piece_ok Digits (c # a) \<and> r = (c # a) # caps
      \<and> k t = Some caps"
    by simp
  then show ?thesis by blast
qed

lemma match_here_sound:
  "match_here p s = Some caps \<Longrightarrow>
   \<exists>ts rest. s = concat ts @ rest \<and> list_all2 piece_ok p ts \<and> caps = captures p ts"
proof (induction p arbitrary: s caps)
  case Nil
  then show ?case by simp
next
  case (Cons n p)
  show ?case
  proof (cases n)
    case (Lit l)
    with Cons.prems have lp: "lit_prefix l s" and m: "match_here p (drop (length l) s) = Some caps"
      by (auto split: if_splits)
    from lit_prefix_split [OF lp] obtain h where h: "s = h @ drop (length l) s" "same_text l h"
      by blast
    from Cons.IH [OF m] obtain ts rest where
      ts: "drop (length l) s = concat ts @ rest" "list_all2 piece_ok p ts" "caps = captures p ts"
      by blast
    from h ts Lit have "s = concat (h # ts) @ rest \<and> list_all2 piece_ok (n # p) (h # ts)
        \<and> caps = captures (n # p) (h # ts)"
      by (metis append.assoc captures.simps(1) concat.simps(2) list_all2_Cons piece_ok.simps(1))
    then show ?thesis by blast
  next
    case LazyAny
    with Cons.prems have "lazy_plus (match_here p) s = Some caps" by simp
    from lazy_plus_sound [OF this] obtain a t c' where
      a: "s = a @ t" "piece_ok LazyAny a" "caps = a # c'" "match_here p t = Some c'"
      by blast
    from Cons.IH [OF a(4)] obtain ts rest where
      ts: "t = concat ts @ rest" "list_all2 piece_ok p ts" "c' = captures p ts"
      by blast
    from a ts LazyAny have "s = concat (a # ts) @ rest \<and> list_all2 piece_ok (n # p) (a # ts)
        \<and> caps = captures (n # p) (a # ts)"
      by simp
    then show ?thesis by blast
  next
    case Digits
    with Cons.prems have "greedy_plus (match_here p) s = Some caps" by simp
    from greedy_plus_sound [OF this] obtain a t c' where
      a: "s = a @ t" "piece_ok Digits a" "caps = a # c'" "match_here p t = Some c'"
      by blast
    from Cons.IH [OF a(4)] obtain ts rest where
      ts: "t = concat ts @ rest" "list_all2 piece_ok p ts" "c' = captures p ts"
      by blast
    from a ts Digits have "s = concat (a # ts) @ rest \<and> list_all2 piece_ok (n # p) (a # ts)
        \<and> caps = captures (n # p) (a # ts)"
      by simp
    then show ?thesis by blast
  qed
qed

lemma regex_match_sound:
  "regex_match p s = Some caps \<Longrightarrow>
   \<exists>pre ts rest. s = pre @ concat ts @ rest \<and> list_all2 piece_ok p ts \<and> caps = captures p ts"
proof (induction s)
  case Nil
  then have "match_here p [] = Some caps" by simp
  from match_here_sound [OF this] show ?case by (metis append_Nil)
next
  case (Cons c s)
  show ?case
  proof (cases "match_here p (c # s)")
    case (Some r)
    with Cons.prems have "match_here p (c # s) = Some caps" by simp
    from match_here_sound [OF this] show ?thesis by (metis append_Nil)
  next
    case None
    with Cons.prems have "regex_match p s = Some caps" by simp
    from Cons.IH [OF this] obtain pre ts rest where
      "s = pre @ concat ts @ rest" "list_all2 piece_ok p ts" "caps = captures p ts"
      by blast
    then have "c # s = (c # pre) @ concat ts @ rest \<and> list_all2 piece_ok p ts
        \<and> caps = captures p ts"
      by simp
    then show ?thesis by blast
  qed
qed

subsection \<open>Every occurrence is found\<close>

lemma lazy_ext_here: "k s = Some caps \<Longrightarrow> lazy_ext k acc s = Some (acc # caps)"
  by (cases s) simp_all

lemma lazy_ext_complete:
  "k t \<noteq> None \<Longrightarrow> \<forall>c \<in> set a. \<not> is_line_terminator c \<Longrightarrow> lazy_ext k acc (a @ t) \<noteq> None"
proof (induction a arbitrary: acc)
  case Nil
  then show ?case using lazy_ext_here [of k t] by auto
next
  case (Cons c a)
  then show ?case by (cases "k (c # a @ t)") auto
qed

lemma lazy_plus_complete:
  "piece_ok LazyAny a \<Longrightarrow> k t \<noteq> None \<Longrightarrow> lazy_plus k (a @ t) \<noteq> None"
  using lazy_ext_complete [of k t "tl a" "[hd a]"] by (cases a) auto

lemma greedy_ext_here:
  "k s \<noteq> None \<Longrightarrow> greedy_ext k acc s \<noteq> None"
  by (cases s) (auto split: option.splits)

lemma greedy_ext_complete:
  "k t \<noteq> None \<Longrightarrow> \<forall>c \<in> set a. is_digit c \<Longrightarrow> greedy_ext k acc (a @ t) \<noteq> None"
proof (induction a arbitrary: acc)
  case Nil
  then show ?case using greedy_ext_here [of k t] by auto
next
  case (Cons c a)
  from Cons.IH [OF Cons.prems(1), of "acc @ [c]"] Cons.prems(2)
  show ?case by (auto split: option.splits)
qed

lemma greedy_plus_complete:
  "piece_ok Digits a \<Longrightarrow> k t \<noteq> None \<Longrightarrow> greedy_plus k (a @ t) \<noteq> None"
  using greedy_ext_complete [of k t "tl a" "[hd a]"] by (cases a) auto

lemma match_here_complete:
  "list_all2 piece_ok p ts \<Longrightarrow> match_here p (concat ts @ rest) \<noteq> None"
proof (induction p arbitrary: ts)
  case Nil
  then show ?case by simp
next
  case (Cons n p)
  from Cons.prems obtain t ts' where ts: "ts = t # ts'" "piece_ok n t" "list_all2 piece_ok p ts'"
    by (auto simp: list_all2_Cons1)
  note ih = Cons.IH [OF ts(3)]
  show ?case
  proof (cases n)
    case (Lit l)
    with ts(2) have "same_text l t" by simp
    from lit_prefix_append [OF this, of "concat ts' @ rest"] ih Lit ts(1)
    show ?thesis by simp
  next
    case LazyAny
    with ts(2) lazy_plus_complete [of t "match_here p" "concat ts' @ rest"] ih ts(1)
    show ?thesis by simp
  next
    case Digits
    with ts(2) greedy_plus_complete [of t "match_here p" "concat ts' @ rest"] ih ts(1)
    show ?thesis by simp
  qed
qed

lemma regex_match_here: "match_here p s = Some caps \<Longrightarrow> regex_match p s = Some caps"
  by (cases s) simp_all

lemma regex_match_complete:
  "match_here p t \<noteq> None \<Longrightarrow> regex_match p (pre @ t) \<noteq> None"
proof (induction pre)
  case Nil
  then show ?case using regex_match_here [of p t] by auto
next
  case (Cons c pre)
  then show ?case by (cases "match_here p (c # pre @ t)") auto
qed

lemma regex_match_iff: "regex_match p s \<noteq> None \<longleftrightarrow> occurs p s"
proof
  assume "regex_match p s \<noteq> None"
  then obtain caps where "regex_match p s = Some caps" by blast
  from regex_match_sound [OF this] show "occurs p s"
    unfolding occurs_def by blast
next
  assume "occurs p s"
  then obtain pre ts rest where s: "s = pre @ concat ts @ rest" and ok: "list_all2 piece_ok p ts"
    unfolding occurs_def by blast
  from regex_match_complete [OF match_here_complete [OF ok, of rest], of pre] s
  show "regex_match p s \<noteq> None" by simp
qed

subsection \<open>The locator of a match\<close>

lemma parseInt10_digits: "id_text ds \<Longrightarrow> parseInt10 ds = Num (decimal_value ds)"
  by (simp add: parseInt10_def id_text_def takeWhile_eq_all_conv [THEN iffD2])

lemma list_all2_pattern:
  assumes "list_all2 piece_ok [Lit a, LazyAny, Lit b, LazyAny, Lit c, LazyAny, Lit d, Digits] ts"
  shows "\<exists>t1 t2 t3 t4 t5 t6 t7 t8. ts = [t1, t2, t3, t4, t5, t6, t7, t8]
     \<and> same_text a t1 \<and> piece_ok LazyAny t2 \<and> same_text b t3 \<and> piece_ok LazyAny t4
     \<and> same_text c t5 \<and> piece_ok LazyAny t6 \<and> same_text d t7 \<and> id_text t8"
  using assms by (auto simp: list_all2_Cons1 id_text_def)

lemma internal_Some:
  assumes p: "p = [Lit a, LazyAny, Lit b, LazyAny, Lit c, LazyAny, Lit d, Digits]"
    and m: "regex_match p s = Some caps"
  shows "\<exists>pre t1 t2 t3 t4 t5 t6 t7 t8 rest.
      s = pre @ concat [t1, t2, t3, t4, t5, t6, t7, t8] @ rest
    \<and> list_all2 piece_ok p [t1, t2, t3, t4, t5, t6, t7, t8]
    \<and> parsePrUrlInternal s p
        = Some \<lparr>organization = t2, project = t4, repository = t6,
                pullRequestId = Num (decimal_value t8)\<rparr>"
proof -
  from regex_match_sound [OF m] obtain pre ts rest where
    s: "s = pre @ concat ts @ rest" and ok: "list_all2 piece_ok p ts" and c: "caps = captures p ts"
    by blast
  from list_all2_pattern [OF ok [unfolded p]] obtain t1 t2 t3 t4 t5 t6 t7 t8 where
    ts: "ts = [t1, t2, t3, t4, t5, t6, t7, t8]" and d: "id_text t8"
    by blast
  from c ts p have "caps = [t2, t4, t6, t8]" by simp
  with m d have "parsePrUrlInternal s p
        = Some \<lparr>organization = t2, project = t4, repository = t6,
                pullRequestId = Num (decimal_value t8)\<rparr>"
    by (simp add: parsePrUrlInternal_def parseInt10_digits)
  with s ok ts show ?thesis by blast
qed

lemma internal_None_iff:
  assumes p: "p = [Lit a, LazyAny, Lit b, LazyAny, Lit c, LazyAny, Lit d, Digits]"
  shows "parsePrUrlInternal s p = None \<longleftrightarrow> \<not> occurs p s"
proof (cases "regex_match p s")
  case None
  then show ?thesis
    using regex_match_iff [of p s] by (simp add: parsePrUrlInternal_def)
next
  case (Some caps)
  from internal_Some [OF p Some] Some show ?thesis
    using regex_match_iff [of p s] by auto
qed

lemma parse_fails_iff:
  "parsePrUrl s = Inl InvalidLocator
     \<longleftrightarrow> \<not> occurs devAzureRegex s \<and> \<not> occurs visualStudioRegex s"
  using internal_None_iff [OF devAzureRegex_def, of s]
    internal_None_iff [OF visualStudioRegex_def, of s]
  by (auto simp: parsePrUrl_def split: option.splits)

lemma parse_Inr:
  assumes "parsePrUrl s = Inr loc"
  shows "\<exists>p pre t1 t2 t3 t4 t5 t6 t7 t8 rest.
      (p = devAzureRegex \<or> p = visualStudioRegex)
    \<and> s = pre @ concat [t1, t2, t3, t4, t5, t6, t7, t8] @ rest
    \<and> list_all2 piece_ok p [t1, t2, t3, t4, t5, t6, t7, t8]
    \<and> loc = \<lparr>organization = t2, project = t4, repository = t6,
              pullRequestId = Num (decimal_value t8)\<rparr>"
proof -
  from assms obtain p where p: "p = devAzureRegex \<or> p = visualStudioRegex"
    and i: "parsePrUrlInternal s p = Some loc"
    by (auto simp: parsePrUrl_def split: option.splits)
  then obtain caps where m: "regex_match p s = Some caps"
    by (auto simp: parsePrUrlInternal_def split: option.splits)
  from p obtain a b c d where f: "p = [Lit a, LazyAny, Lit b, LazyAny, Lit c, LazyAny, Lit d, Digits]"
    by (auto simp: devAzureRegex_def visualStudioRegex_def)
  from internal_Some [OF f m] i p show ?thesis
    by (metis option.inject)
qed

subsection \<open>The match of a well-formed URL\<close>

lemma match_here_Lazy: "match_here (LazyAny # ns) s = lazy_plus (match_here ns) s"
  by simp

lemma match_here_Digits: "match_here (Digits # ns) s = greedy_plus (match_here ns) s"
  by simp

lemma lit_step:
  "same_text l h \<Longrightarrow> match_here (Lit l # ns) (h @ t) = match_here ns t"
  using lit_prefix_append [of l h t] by simp

lemma lit_slash_fail:
  assumes "l \<noteq> []" and "hd l = CHR ''/''" and "x2 \<noteq> []" and "hd x2 \<noteq> CHR ''/''"
  shows "match_here (Lit l # ns) (x2 @ t) = None"
proof -
  from assms(1,2) obtain l' where l: "l = CHR ''/'' # l'" by (cases l) auto
  from assms(3,4) obtain c x' where x: "x2 = c # x'" "c \<noteq> CHR ''/''" by (cases x2) auto
  have "canonicalize CHR ''/'' = CHR ''/''" by (simp add: canonicalize_slash)
  with x(2) have "canonicalize CHR ''/'' \<noteq> canonicalize c"
    by (metis canonicalize_slash)
  with l x(1) show ?thesis by simp
qed

lemma match_here_Lit_fail: "\<not> lit_prefix l s \<Longrightarrow> match_here (Lit l # ns) s = None"
  by simp

declare match_here.simps(2) [simp del]

lemma lazy_ext_exact:
  assumes "k t = Some caps"
    and "\<forall>c \<in> set x. \<not> is_line_terminator c"
    and "\<forall>x1 x2. x = x1 @ x2 \<and> x2 \<noteq> [] \<longrightarrow> k (x2 @ t) = None"
  shows "lazy_ext k acc (x @ t) = Some ((acc @ x) # caps)"
  using assms(2,3)
proof (induction x arbitrary: acc)
  case Nil
  show ?case using lazy_ext_here [of k t caps acc] assms(1) by simp
next
  case (Cons c x)
  from Cons.prems(2) have none: "k ((c # x) @ t) = None"
    by blast
  have "\<forall>x1 x2. x = x1 @ x2 \<and> x2 \<noteq> [] \<longrightarrow> k (x2 @ t) = None"
  proof (intro allI impI)
    fix x1 x2 assume "x = x1 @ x2 \<and> x2 \<noteq> []"
    then have "c # x = (c # x1) @ x2 \<and> x2 \<noteq> []" by simp
    with Cons.prems(2) show "k (x2 @ t) = None" by blast
  qed
  with Cons.IH [of "acc @ [c]"] Cons.prems(1)
  have "lazy_ext k (acc @ [c]) (x @ t) = Some ((acc @ c # x) # caps)"
    by simp
  with none Cons.prems(1) show ?case by simp
qed

lemma lazy_plus_exact:
  assumes "k t = Some caps"
    and "piece_ok LazyAny x"
    and "\<forall>x1 x2. x = x1 @ x2 \<and> x1 \<noteq> [] \<and> x2 \<noteq> [] \<longrightarrow> k (x2 @ t) = None"
  shows "lazy_plus k (x @ t) = Some (x # caps)"
proof -
  from assms(2) obtain c x' where x: "x = c # x'" and nl: "\<not> is_line_terminator c"
    and nl': "\<forall>c \<in> set x'. \<not> is_line_terminator c"
    by (cases x) auto
  have "\<forall>x1 x2. x' = x1 @ x2 \<and> x2 \<noteq> [] \<longrightarrow> k (x2 @ t) = None"
  proof (intro allI impI)
    fix x1 x2 assume "x' = x1 @ x2 \<and> x2 \<noteq> []"
    then have "x = (c # x1) @ x2 \<and> c # x1 \<noteq> [] \<and> x2 \<noteq> []" using x by simp
    with assms(3) show "k (x2 @ t) = None" by blast
  qed
  from lazy_ext_exact [OF assms(1) nl' this, of "[c]"] x nl show ?thesis
    by simp
qed

lemma lazy_step:
  assumes "segment x" and "l \<noteq> []" and "hd l = CHR ''/''"
    and "match_here (Lit l # ns) t = Some caps"
  shows "match_here (LazyAny # Lit l # ns) (x @ t) = Some (x # caps)"
proof -
  have ok: "piece_ok LazyAny x" using assms(1) by (simp add: segment_def)
  have "\<forall>x1 x2. x = x1 @ x2 \<and> x1 \<noteq> [] \<and> x2 \<noteq> [] \<longrightarrow> match_here (Lit l # ns) (x2 @ t) = None"
  proof (intro allI impI)
    fix x1 x2 assume a: "x = x1 @ x2 \<and> x1 \<noteq> [] \<and> x2 \<noteq> []"
    then have "hd x2 \<in> set x" by simp
    with assms(1) have "hd x2 \<noteq> CHR ''/''" by (auto simp: segment_def)
    with a show "match_here (Lit l # ns) (x2 @ t) = None"
      by (intro lit_slash_fail [OF assms(2,3)]) simp_all
  qed
  from lazy_plus_exact [of "match_here (Lit l # ns)" t caps x, OF assms(4) ok this]
  show ?thesis by (simp only: match_here_Lazy)
qed

lemma greedy_ext_end:
  "\<forall>c \<in> set ds. is_digit c \<Longrightarrow> greedy_ext (match_here []) acc ds = Some [acc @ ds]"
  by (induction ds arbitrary: acc) simp_all

lemma digits_step: "id_text ds \<Longrightarrow> match_here [Digits] ds = Some [ds]"
  using greedy_ext_end [of "tl ds" "[hd ds]"]
  by (cases ds) (auto simp: id_text_def match_here_Digits)

lemma match_tail:
  assumes "segment repo" and "id_text ds"
  shows "match_here [LazyAny, Lit ''/pullrequest/'', Digits] (repo @ ''/pullrequest/'' @ ds)
           = Some [repo, ds]"
proof -
  have "match_here [Lit ''/pullrequest/'', Digits] (''/pullrequest/'' @ ds) = Some [ds]"
    using lit_step [OF same_text_refl, of "''/pullrequest/''" "[Digits]" ds] digits_step [OF assms(2)]
    by simp
  from lazy_step [OF assms(1) _ _ this] show ?thesis by simp
qed

lemma match_middle:
  assumes "segment proj" and "segment repo" and "id_text ds"
  shows "match_here [LazyAny, Lit ''/_git/'', LazyAny, Lit ''/pullrequest/'', Digits]
           (proj @ ''/_git/'' @ repo @ ''/pullrequest/'' @ ds)
           = Some [proj, repo, ds]"
proof -
  have "match_here [Lit ''/_git/'', LazyAny, Lit ''/pullrequest/'', Digits]
          (''/_git/'' @ repo @ ''/pullrequest/'' @ ds) = Some [repo, ds]"
    using lit_step [OF same_text_refl, of "''/_git/''"
            "[LazyAny, Lit ''/pullrequest/'', Digits]" "repo @ ''/pullrequest/'' @ ds"]
          match_tail [OF assms(2,3)]
    by simp
  from lazy_step [OF assms(1) _ _ this] show ?thesis by simp
qed

lemma match_dev:
  assumes "same_text ''https://dev.azure.com/'' h"
    and "segment org" and "segment proj" and "segment repo" and "id_text ds"
  shows "match_here devAzureRegex
           (h @ org @ ''/'' @ proj @ ''/_git/'' @ repo @ ''/pullrequest/'' @ ds)
           = Some [org, proj, repo, ds]"
proof -
  let ?rest = "proj @ ''/_git/'' @ repo @ ''/pullrequest/'' @ ds"
  let ?p = "[LazyAny, Lit ''/_git/'', LazyAny, Lit ''/pullrequest/'', Digits]"
  have "match_here (Lit ''/'' # ?p) (''/'' @ ?rest) = Some [proj, repo, ds]"
    using lit_step [OF same_text_refl, of "''/''" ?p ?rest] match_middle [OF assms(3,4,5)]
    by simp
  from lazy_step [OF assms(2) _ _ this]
  have "match_here (LazyAny # Lit ''/'' # ?p) (org @ ''/'' @ ?rest) = Some [org, proj, repo, ds]"
    by simp
  with lit_step [OF assms(1), of "LazyAny # Lit ''/'' # ?p" "org @ ''/'' @ ?rest"]
  show ?thesis
    by (simp add: devAzureRegex_def)
qed

lemma parse_dev:
  assumes "same_text ''https://dev.azure.com/'' h"
    and "segment org" and "segment proj" and "segment repo" and "id_text ds"
  shows "parsePrUrl (h @ org @ ''/'' @ proj @ ''/_git/'' @ repo @ ''/pullrequest/'' @ ds)
           = Inr \<lparr>organization = org, project = proj, repository = repo,
                  pullRequestId = Num (decimal_value ds)\<rparr>"
  using regex_match_here [OF match_dev [OF assms]] assms(5)
  by (simp add: parsePrUrl_def parsePrUrlInternal_def parseInt10_digits)

subsection \<open>A visualstudio.com URL\<close>

lemma same_text_slash_mem:
  assumes "same_text a b"
  shows "CHR ''/'' \<in> set a \<longleftrightarrow> CHR ''/'' \<in> set b"
proof -
  have "CHR ''/'' \<in> set x \<longleftrightarrow> CHR ''/'' \<in> set (map canonicalize x)" for x
  proof
    assume "CHR ''/'' \<in> set x"
    then have "canonicalize CHR ''/'' \<in> set (map canonicalize x)" by simp
    moreover have "canonicalize CHR ''/'' = CHR ''/''" by (simp add: canonicalize_slash)
    ultimately show "CHR ''/'' \<in> set (map canonicalize x)" by simp
  next
    assume "CHR ''/'' \<in> set (map canonicalize x)"
    then obtain c where "c \<in> set x" "canonicalize c = CHR ''/''" by auto
    then show "CHR ''/'' \<in> set x" by (simp add: canonicalize_slash)
  qed
  from this [of a] this [of b] assms show ?thesis unfolding same_text_def by argo
qed

lemma same_text_append:
  assumes "same_text (l1 @ l2) t"
  shows "\<exists>t1 t2. t = t1 @ t2 \<and> same_text l1 t1 \<and> same_text l2 t2"
proof -
  from assms have m: "map canonicalize l1 @ map canonicalize l2 = map canonicalize t"
    by (simp add: same_text_def)
  then have "map canonicalize l1 = map canonicalize (take (length l1) t)"
    by (metis append_eq_conv_conj length_map take_map)
  moreover from m have "map canonicalize l2 = map canonicalize (drop (length l1) t)"
    by (metis append_eq_conv_conj length_map drop_map)
  ultimately have "t = take (length l1) t @ drop (length l1) t
      \<and> same_text l1 (take (length l1) t) \<and> same_text l2 (drop (length l1) t)"
    by (simp add: same_text_def)
  then show ?thesis by blast
qed

lemma same_text_slashes:
  assumes "same_text l t" and "set l \<subseteq> {CHR ''/''}"
  shows "t = l"
proof -
  have "map canonicalize l = l"
    using assms(2) by (induction l) (auto simp: canonicalize_slash)
  with assms(1) have m: "map canonicalize t = l" by (simp add: same_text_def)
  have "set t \<subseteq> {CHR ''/''}"
  proof
    fix c assume "c \<in> set t"
    then have "canonicalize c \<in> set (map canonicalize t)" by simp
    with m assms(2) have "canonicalize c = CHR ''/''" by auto
    then show "c \<in> {CHR ''/''}" by (simp add: canonicalize_slash)
  qed
  then have "map canonicalize t = t"
    by (induction t) (auto simp: canonicalize_slash)
  with m show ?thesis by simp
qed

lemma first_slash_unique:
  assumes "CHR ''/'' \<notin> set a" and "CHR ''/'' \<notin> set b"
    and "a @ CHR ''/'' # r = b @ CHR ''/'' # r'"
  shows "a = b"
proof -
  have "takeWhile (\<lambda>c. c \<noteq> CHR ''/'') (x @ CHR ''/'' # y) = x" if "CHR ''/'' \<notin> set x" for x y
    using that by (induction x) auto
  with assms show ?thesis by metis
qed

lemma host_fail:
  assumes "same_text l v" and "l = m @ [CHR ''/'']" and "CHR ''/'' \<notin> set m"
    and "x2 \<noteq> []" and "CHR ''/'' \<notin> set x2"
  shows "\<not> lit_prefix l (x2 @ v @ t)"
proof
  assume "lit_prefix l (x2 @ v @ t)"
  from lit_prefix_split [OF this] obtain h r where
    h: "x2 @ v @ t = h @ r" "same_text l h"
    by blast
  from same_text_append [OF h(2) [unfolded assms(2)]] obtain h1 h2 where
    h12: "h = h1 @ h2" "same_text m h1" "same_text [CHR ''/''] h2"
    by blast
  from same_text_append [OF assms(1) [unfolded assms(2)]] obtain v1 v2 where
    v12: "v = v1 @ v2" "same_text m v1" "same_text [CHR ''/''] v2"
    by blast
  have h2: "h2 = [CHR ''/'']" using same_text_slashes [OF h12(3)] by simp
  have v2: "v2 = [CHR ''/'']" using same_text_slashes [OF v12(3)] by simp
  have nh: "CHR ''/'' \<notin> set h1" using same_text_slash_mem [OF h12(2)] assms(3) by simp
  have nv: "CHR ''/'' \<notin> set (x2 @ v1)"
    using same_text_slash_mem [OF v12(2)] assms(3,5) by simp
  from h(1) h12(1) v12(1) h2 v2 have "(x2 @ v1) @ CHR ''/'' # t = h1 @ CHR ''/'' # r"
    by simp
  from first_slash_unique [OF nv nh this] have "length (x2 @ v1) = length h1"
    by simp
  with same_text_length [OF h12(2)] same_text_length [OF v12(2)] assms(4)
  show False by simp
qed

lemma host_step:
  assumes "segment x" and "same_text ''.visualstudio.com/'' v"
    and "match_here ns t = Some caps"
  shows "match_here (LazyAny # Lit ''.visualstudio.com/'' # ns) (x @ v @ t) = Some (x # caps)"
proof -
  let ?k = "match_here (Lit ''.visualstudio.com/'' # ns)"
  have ok: "piece_ok LazyAny x" using assms(1) by (simp add: segment_def)
  have l: "''.visualstudio.com/'' = ''.visualstudio.com'' @ [CHR ''/'']"
    and m: "CHR ''/'' \<notin> set ''.visualstudio.com''"
    by simp_all
  have k: "?k (v @ t) = Some caps"
    using lit_step [OF assms(2), of ns t] assms(3) by simp
  have "\<forall>x1 x2. x = x1 @ x2 \<and> x1 \<noteq> [] \<and> x2 \<noteq> [] \<longrightarrow> ?k (x2 @ v @ t) = None"
  proof (intro allI impI)
    fix x1 x2 assume a: "x = x1 @ x2 \<and> x1 \<noteq> [] \<and> x2 \<noteq> []"
    with assms(1) have "CHR ''/'' \<notin> set x2" by (auto simp: segment_def)
    with a have "\<not> lit_prefix ''.visualstudio.com/'' (x2 @ v @ t)"
      by (intro host_fail [OF assms(2) l m]) simp_all
    then show "?k (x2 @ v @ t) = None"
      by (rule match_here_Lit_fail)
  qed
  from lazy_plus_exact [of ?k "v @ t" caps x, OF k ok this]
  show ?thesis by (simp only: match_here_Lazy)
qed

lemma match_vs:
  assumes "same_text ''https://'' h" and "same_text ''.visualstudio.com/'' v"
    and "segment org" and "segment proj" and "segment repo" and "id_text ds"
  shows "match_here visualStudioRegex
           (h @ org @ v @ proj @ ''/_git/'' @ repo @ ''/pullrequest/'' @ ds)
           = Some [org, proj, repo, ds]"
proof -
  let ?rest = "proj @ ''/_git/'' @ repo @ ''/pullrequest/'' @ ds"
  let ?p = "[LazyAny, Lit ''/_git/'', LazyAny, Lit ''/pullrequest/'', Digits]"
  from host_step [OF assms(3) assms(2) match_middle [OF assms(4,5,6)]]
  have "match_here (LazyAny # Lit ''.visualstudio.com/'' # ?p) (org @ v @ ?rest)
      = Some [org, proj, repo, ds]" .
  with lit_step [OF assms(1), of "LazyAny # Lit ''.visualstudio.com/'' # ?p" "org @ v @ ?rest"]
  show ?thesis
    by (simp add: visualStudioRegex_def)
qed

lemma nds_free: "CHR ''/'' \<notin> set x \<Longrightarrow> no_double_slash x"
  unfolding no_double_slash_def successively_conv_nth
  by (metis Suc_lessD nth_mem)

lemma nds_free_left:
  assumes "CHR ''/'' \<notin> set a" and "no_double_slash b"
  shows "no_double_slash (a @ b)"
proof -
  have "a \<noteq> [] \<Longrightarrow> last a \<noteq> CHR ''/''"
    using assms(1) last_in_set by metis
  with nds_free [OF assms(1)] assms(2) show ?thesis
    unfolding no_double_slash_def successively_append_iff by blast
qed

lemma nds_before_free:
  assumes "no_double_slash a" and "x \<noteq> []" and "CHR ''/'' \<notin> set x"
    and "no_double_slash (x @ b)"
  shows "no_double_slash (a @ x @ b)"
proof -
  have "hd (x @ b) \<noteq> CHR ''/''"
    using assms(2,3) by (metis hd_append2 hd_in_set)
  with assms(1,4) show ?thesis
    unfolding no_double_slash_def successively_append_iff by blast
qed

lemma nds_double: "\<not> no_double_slash (u @ CHR ''/'' # CHR ''/'' # y)"
  unfolding no_double_slash_def successively_append_iff by simp

lemma double_slash_unique:
  assumes "CHR ''/'' \<notin> set H" and "no_double_slash w" and "w = [] \<or> hd w \<noteq> CHR ''/''"
  shows "u @ CHR ''/'' # CHR ''/'' # y = H @ CHR ''/'' # CHR ''/'' # w \<Longrightarrow> y = w"
  using assms(1)
proof (induction H arbitrary: u)
  case Nil
  show ?case
  proof (cases u)
    case Nil
    with Nil.prems show ?thesis by simp
  next
    case (Cons c u')
    note u = this
    show ?thesis
    proof (cases u')
      case Nil
      with u Nil.prems assms(3) show ?thesis by auto
    next
      case (Cons c' u'')
      with u Nil.prems have "w = u'' @ CHR ''/'' # CHR ''/'' # y" by simp
      with assms(2) nds_double show ?thesis by blast
    qed
  qed
next
  case (Cons c H)
  from Cons.prems obtain u' where "u = c # u'"
    by (cases u) auto
  with Cons.prems Cons.IH [of u'] show ?case by simp
qed

lemma vs_not_dev:
  assumes "same_text ''https://'' h" and "same_text ''.visualstudio.com/'' v"
    and "segment org" and "segment proj" and "segment repo" and "id_text ds"
  shows "\<not> occurs devAzureRegex
           (h @ org @ v @ proj @ ''/_git/'' @ repo @ ''/pullrequest/'' @ ds)"
proof
  define G where "G = ''/_git/''"
  define P where "P = ''/pullrequest/''"
  define w where "w = org @ v @ proj @ G @ repo @ P @ ds"
  assume "occurs devAzureRegex (h @ org @ v @ proj @ ''/_git/'' @ repo @ ''/pullrequest/'' @ ds)"
  then obtain pre ts rest where s: "h @ w = pre @ concat ts @ rest"
    and ok: "list_all2 piece_ok devAzureRegex ts"
    unfolding occurs_def w_def G_def P_def by blast
  from list_all2_pattern [OF ok [unfolded devAzureRegex_def]]
  obtain t1 ts' where ts: "ts = t1 # ts'" and t1: "same_text ''https://dev.azure.com/'' t1"
    by blast
  have "same_text (''https:'' @ ''//'' @ ''dev.azure.com'' @ ''/'') t1"
    using t1 by simp
  from same_text_append [OF this] obtain a t1' where
    a: "t1 = a @ t1'" "same_text ''https:'' a" "same_text (''//'' @ ''dev.azure.com'' @ ''/'') t1'"
    by blast
  from same_text_append [OF a(3)] obtain b t1'' where
    b: "t1' = b @ t1''" "same_text ''//'' b" "same_text (''dev.azure.com'' @ ''/'') t1''"
    by blast
  from same_text_append [OF b(3)] obtain d e where
    d: "t1'' = d @ e" "same_text ''dev.azure.com'' d" "same_text ''/'' e"
    by blast
  have b2: "b = ''//''" using same_text_slashes [OF b(2)] by simp
  have e2: "e = ''/''" using same_text_slashes [OF d(3)] by simp
  have "same_text (''https:'' @ ''//'') h"
    using assms(1) by simp
  from same_text_append [OF this] obtain H hh where
    H: "h = H @ hh" "same_text ''https:'' H" "same_text ''//'' hh"
    by blast
  have hh: "hh = ''//''" using same_text_slashes [OF H(3)] by simp
  have nH: "CHR ''/'' \<notin> set H" using same_text_slash_mem [OF H(2)] by simp
  have nd: "CHR ''/'' \<notin> set d" using same_text_slash_mem [OF d(2)] by simp
  have ld: "length d = 13" using same_text_length [OF d(2)] by simp
  have "same_text (''.visualstudio.com'' @ ''/'') v"
    using assms(2) by simp
  from same_text_append [OF this] obtain v1 v2 where
    v: "v = v1 @ v2" "same_text ''.visualstudio.com'' v1" "same_text ''/'' v2"
    by blast
  have v2: "v2 = ''/''" using same_text_slashes [OF v(3)] by simp
  have nv: "CHR ''/'' \<notin> set v1" using same_text_slash_mem [OF v(2)] by simp
  have lv: "length v1 = 17" using same_text_length [OF v(2)] by simp
  have norg: "CHR ''/'' \<notin> set org" "org \<noteq> []" using assms(3) by (auto simp: segment_def)
  have nproj: "CHR ''/'' \<notin> set proj" "proj \<noteq> []" using assms(4) by (auto simp: segment_def)
  have nrepo: "CHR ''/'' \<notin> set repo" "repo \<noteq> []" using assms(5) by (auto simp: segment_def)
  have nds: "CHR ''/'' \<notin> set ds" "ds \<noteq> []"
    using assms(6) by (auto simp: id_text_def is_digit_def)
  have nG: "no_double_slash G" and nP: "no_double_slash P"
    by (simp_all add: G_def P_def no_double_slash_def)
  have nV: "no_double_slash v"
    unfolding v(1) v2 by (rule nds_free_left [OF nv]) (simp add: no_double_slash_def)
  have "no_double_slash (ds @ [])" using nds_free [OF nds(1)] by simp
  from nds_before_free [OF nP nds(2) nds(1) this] have "no_double_slash (P @ ds)" by simp
  from nds_free_left [OF nrepo(1) this] have "no_double_slash (repo @ P @ ds)" .
  from nds_before_free [OF nG nrepo(2) nrepo(1) this]
  have "no_double_slash (G @ repo @ P @ ds)" .
  from nds_free_left [OF nproj(1) this] have "no_double_slash (proj @ G @ repo @ P @ ds)" .
  from nds_before_free [OF nV nproj(2) nproj(1) this]
  have "no_double_slash (v @ proj @ G @ repo @ P @ ds)" .
  from nds_free_left [OF norg(1) this] have nw: "no_double_slash w"
    unfolding w_def .
  have hw: "w = [] \<or> hd w \<noteq> CHR ''/''"
    using norg unfolding w_def by (metis hd_append2 hd_in_set)
  define r where "r = concat ts' @ rest"
  from s ts a(1) b(1) d(1) b2 e2 H(1) hh
  have "(pre @ a) @ CHR ''/'' # CHR ''/'' # (d @ CHR ''/'' # r) = H @ CHR ''/'' # CHR ''/'' # w"
    by (simp add: r_def)
  from double_slash_unique [OF nH nw hw this]
  have "d @ CHR ''/'' # r = (org @ v1) @ CHR ''/'' # (proj @ G @ repo @ P @ ds)"
    by (simp add: w_def v(1) v2)
  from first_slash_unique [OF nd _ this] norg(1) nv have "d = org @ v1"
    by simp
  with ld lv norg(2) show False by simp
qed

lemma parse_vs:
  assumes "same_text ''https://'' h" and "same_text ''.visualstudio.com/'' v"
    and "segment org" and "segment proj" and "segment repo" and "id_text ds"
  shows "parsePrUrl (h @ org @ v @ proj @ ''/_git/'' @ repo @ ''/pullrequest/'' @ ds)
           = Inr \<lparr>organization = org, project = proj, repository = repo,
                  pullRequestId = Num (decimal_value ds)\<rparr>"
  using regex_match_here [OF match_vs [OF assms]] assms(6)
    internal_None_iff [OF devAzureRegex_def,
      of "h @ org @ v @ proj @ ''/_git/'' @ repo @ ''/pullrequest/'' @ ds"]
    vs_not_dev [OF assms]
  by (simp add: parsePrUrl_def parsePrUrlInternal_def [of _ visualStudioRegex] parseInt10_digits)

subsection \<open>The locator parser\<close>

lemma parse_Inl: "parsePrUrl s = Inl e \<Longrightarrow> e = InvalidLocator"
  by (auto simp: parsePrUrl_def split: option.splits)

lemma parse_populated:
  assumes "parsePrUrl s = Inr loc"
  shows "\<exists>p pre t1 t2 t3 t4 t5 t6 t7 t8 rest.
      (p = devAzureRegex \<or> p = visualStudioRegex)
    \<and> s = pre @ concat [t1, t2, t3, t4, t5, t6, t7, t8] @ rest
    \<and> list_all2 piece_ok p [t1, t2, t3, t4, t5, t6, t7, t8]
    \<and> organization loc = t2 \<and> project loc = t4 \<and> repository loc = t6
    \<and> pullRequestId loc = parseInt10 t8 \<and> pullRequestId loc \<noteq> NaN"
proof -
  from parse_Inr [OF assms] obtain p pre t1 t2 t3 t4 t5 t6 t7 t8 rest where
    p: "p = devAzureRegex \<or> p = visualStudioRegex"
    and s: "s = pre @ concat [t1, t2, t3, t4, t5, t6, t7, t8] @ rest"
    and ok: "list_all2 piece_ok p [t1, t2, t3, t4, t5, t6, t7, t8]"
    and loc: "loc = \<lparr>organization = t2, project = t4, repository = t6,
                     pullRequestId = Num (decimal_value t8)\<rparr>"
    by blast
  from ok have "id_text t8"
    using p by (auto simp: devAzureRegex_def visualStudioRegex_def id_text_def)
  with loc have "organization loc = t2 \<and> project loc = t4 \<and> repository loc = t6
    \<and> pullRequestId loc = parseInt10 t8 \<and> pullRequestId loc \<noteq> NaN"
    by (simp add: parseInt10_digits)
  with p s ok show ?thesis by blast
qed

text \<open>
  C1 (as amended). \<open>parsePrUrl\<close> is a function of the text alone. For every text of one
  of the two shapes (scheme and host compared without regard to case; organization,
  project and repository not empty and free of slashes and line terminators; the id a
  run of decimal digits with a value below \<open>2 ^ 53\<close>) it returns exactly the four
  components. It fails, with \<open>InvalidLocator\<close> and no other error, exactly when neither
  pattern occurs anywhere in the text: the patterns are searched for, so text before the
  URL and after the digits is ignored, and the id \<^verbatim>\<open>0\<close> is accepted. Whenever it
  returns a locator, the text contains an occurrence of the whole structure of one of
  the patterns, the three names of the locator are the non-empty texts of its groups and
  the id is the number of its digits: no locator is partially populated.
\<close>

theorem parsePrUrl_amended:
  "(same_text ''https://dev.azure.com/'' h \<and> segment org \<and> segment proj \<and> segment repo
      \<and> id_text ds \<and> decimal_value ds < 2 ^ 53 \<longrightarrow>
      parsePrUrl (h @ org @ ''/'' @ proj @ ''/_git/'' @ repo @ ''/pullrequest/'' @ ds)
        = Inr \<lparr>organization = org, project = proj, repository = repo,
               pullRequestId = Num (decimal_value ds)\<rparr>)
   \<and> (same_text ''https://'' h' \<and> same_text ''.visualstudio.com/'' v
      \<and> segment org \<and> segment proj \<and> segment repo
      \<and> id_text ds \<and> decimal_value ds < 2 ^ 53 \<longrightarrow>
      parsePrUrl (h' @ org @ v @ proj @ ''/_git/'' @ repo @ ''/pullrequest/'' @ ds)
        = Inr \<lparr>organization = org, project = proj, repository = repo,
               pullRequestId = Num (decimal_value ds)\<rparr>)
   \<and> (parsePrUrl s = Inl InvalidLocator
        \<longleftrightarrow> \<not> occurs devAzureRegex s \<and> \<not> occurs visualStudioRegex s)
   \<and> (\<forall>e. parsePrUrl s = Inl e \<longrightarrow> e = InvalidLocator)
   \<and> (\<forall>loc. parsePrUrl s = Inr loc \<longrightarrow>
        (\<exists>p pre t1 t2 t3 t4 t5 t6 t7 t8 rest.
            (p = devAzureRegex \<or> p = visualStudioRegex)
          \<and> s = pre @ concat [t1, t2, t3, t4, t5, t6, t7, t8] @ rest
          \<and> list_all2 piece_ok p [t1, t2, t3, t4, t5, t6, t7, t8]
          \<and> organization loc = t2 \<and> project loc = t4 \<and> repository loc = t6
          \<and> pullRequestId loc = parseInt10 t8 \<and> pullRequestId loc \<noteq> NaN))"
  using parse_dev [of h org proj repo ds] parse_vs [of h' v org proj repo ds]
    parse_fails_iff [of s] parse_Inl [of s] parse_populated [of s]
  by blast

lemma parse_zero_id:
  "parsePrUrl ''https://dev.azure.com/o/p/_git/r/pullrequest/0''
     = Inr \<lparr>organization = ''o'', project = ''p'', repository = ''r'', pullRequestId = Num 0\<rparr>"
  by (simp add: parse_eval char_eval match_here.simps)

lemma parse_embedded:
  "parsePrUrl ''see https://dev.azure.com/o/p/_git/r/pullrequest/12abc''
     = Inr \<lparr>organization = ''o'', project = ''p'', repository = ''r'', pullRequestId = Num 12\<rparr>"
  by (simp add: parse_eval char_eval match_here.simps)

text \<open>
  A URL with the id \<^verbatim>\<open>0\<close> is not rejected, and neither is a text that only contains a
  URL: the digits are read up to the first character that is not a digit.
\<close>

theorem parsePrUrl_counterexample:
  "parsePrUrl ''https://dev.azure.com/o/p/_git/r/pullrequest/0''
     = Inr \<lparr>organization = ''o'', project = ''p'', repository = ''r'', pullRequestId = Num 0\<rparr>
   \<and> parsePrUrl ''see https://dev.azure.com/o/p/_git/r/pullrequest/12abc''
     = Inr \<lparr>organization = ''o'', project = ''p'', repository = ''r'', pullRequestId = Num 12\<rparr>"
  using parse_zero_id parse_embedded by simp

lemma sample_pieces:
  "same_text ''https://dev.azure.com/'' ''HTTPS://Dev.Azure.com/''"
  "same_text ''https://'' ''https://''"
  "same_text ''.visualstudio.com/'' ''.VisualStudio.com/''"
  "segment ''org''" "segment ''project''" "segment ''repo''"
  "id_text ''123''" "decimal_value ''123'' = 123"
  by (simp_all add: same_text_def segment_def id_text_def decimal_value_def char_eval)

lemma parse_sample_embedded:
  "parsePrUrl sample_embedded_url
     = Inr \<lparr>organization = ''o'', project = ''p'', repository = ''r'', pullRequestId = Num 12\<rparr>"
  using parse_embedded by (simp add: sample_embedded_url_def)

theorem parsePrUrl_amended_witness:
  "parsePrUrl ''HTTPS://Dev.Azure.com/org/project/_git/repo/pullrequest/123''
     = Inr \<lparr>organization = ''org'', project = ''project'', repository = ''repo'',
            pullRequestId = Num 123\<rparr>
   \<and> parsePrUrl ''https://org.VisualStudio.com/project/_git/repo/pullrequest/123''
     = Inr \<lparr>organization = ''org'', project = ''project'', repository = ''repo'',
            pullRequestId = Num 123\<rparr>
   \<and> \<not> occurs devAzureRegex ''not a url'' \<and> \<not> occurs visualStudioRegex ''not a url''
   \<and> (\<exists>p pre t1 t2 t3 t4 t5 t6 t7 t8 rest.
          (p = devAzureRegex \<or> p = visualStudioRegex)
        \<and> sample_embedded_url = pre @ concat [t1, t2, t3, t4, t5, t6, t7, t8] @ rest
        \<and> list_all2 piece_ok p [t1, t2, t3, t4, t5, t6, t7, t8]
        \<and> organization \<lparr>organization = ''o'', project = ''p'', repository = ''r'',
                         pullRequestId = Num 12\<rparr> = t2
        \<and> project \<lparr>organization = ''o'', project = ''p'', repository = ''r'',
                    pullRequestId = Num 12\<rparr> = t4
        \<and> repository \<lparr>organization = ''o'', project = ''p'', repository = ''r'',
                       pullRequestId = Num 12\<rparr> = t6
        \<and> pullRequestId \<lparr>organization = ''o'', project = ''p'', repository = ''r'',
                          pullRequestId = Num 12\<rparr> = parseInt10 t8
        \<and> pullRequestId \<lparr>organization = ''o'', project = ''p'', repository = ''r'',
                          pullRequestId = Num 12\<rparr> \<noteq> NaN)"
proof -
  note a = parsePrUrl_amended [of "''HTTPS://Dev.Azure.com/''" "''org''" "''project''" "''repo''"
      "''123''" "''https://''" "''.VisualStudio.com/''" "''not a url''"]
  note b = parsePrUrl_amended [of "''HTTPS://Dev.Azure.com/''" "''org''" "''project''" "''repo''"
      "''123''" "''https://''" "''.VisualStudio.com/''" sample_embedded_url]
  have 1: "parsePrUrl ''HTTPS://Dev.Azure.com/org/project/_git/repo/pullrequest/123''
     = Inr \<lparr>organization = ''org'', project = ''project'', repository = ''repo'',
            pullRequestId = Num 123\<rparr>"
    using a [THEN conjunct1] sample_pieces by simp
  have 2: "parsePrUrl ''https://org.VisualStudio.com/project/_git/repo/pullrequest/123''
     = Inr \<lparr>organization = ''org'', project = ''project'', repository = ''repo'',
            pullRequestId = Num 123\<rparr>"
    using a [THEN conjunct2, THEN conjunct1] sample_pieces by simp
  have 3: "\<not> occurs devAzureRegex ''not a url'' \<and> \<not> occurs visualStudioRegex ''not a url''"
    using a [THEN conjunct2, THEN conjunct2, THEN conjunct1] parse_not_a_url by blast
  note 4 = b [THEN conjunct2, THEN conjunct2, THEN conjunct2, THEN conjunct2, rule_format,
      OF parse_sample_embedded]
  show ?thesis
    by (intro conjI 1 2 3 [THEN conjunct1] 3 [THEN conjunct2] 4)
qed

end
